theory Spec2Isabelle
  imports Main
begin

section \<open>The syntax highlighter (class CobolHighlighter of app.py)\<close>

subsection \<open>The regular expressions the highlighter uses\<close>

text \<open>
  The highlighter builds its rules from three shapes of regular expression only:
  \<^verbatim>\<open>\bWORD\b\<close> for each keyword, \<^verbatim>\<open>".*?"\<close> and \<^verbatim>\<open>'.*?'\<close> for string literals and
  \<^verbatim>\<open>^\s*\*>.*\<close> for comments. A pattern is a sequence of atoms: a literal character, the
  word boundary \<^verbatim>\<open>\b\<close>, the anchor \<^verbatim>\<open>^\<close>, and a greedy or a lazy star over one of the two
  character classes \<^verbatim>\<open>.\<close> and \<^verbatim>\<open>\s\<close>.

  A text block is a list of characters, one per position of the block; positions count
  from 0. The patterns are compiled without options, so \<^verbatim>\<open>\w\<close> and \<^verbatim>\<open>\s\<close> are the ASCII
  classes, \<^verbatim>\<open>.\<close> is every character but the line feed, and \<^verbatim>\<open>^\<close> matches at the start of
  the block only.
\<close>

datatype cclass = Dot | Space

datatype atom = Lit char | WordB | Bol | StarG cclass | StarL cclass

definition is_word :: "char \<Rightarrow> bool" where
  "is_word c \<longleftrightarrow>
     c \<in> set ''ABCDEFGHIJKLMNOPQRSTUVWXYZabcdefghijklmnopqrstuvwxyz0123456789_''"

definition is_space :: "char \<Rightarrow> bool" where
  "is_space c \<longleftrightarrow>
     c \<in> set [CHR 0x20, CHR 0x09, CHR 0x0A, CHR 0x0B, CHR 0x0C, CHR 0x0D]"

fun cls :: "cclass \<Rightarrow> char \<Rightarrow> bool" where
  "cls Dot c = (c \<noteq> CHR 0x0A)"
| "cls Space c = is_space c"

fun word_opt :: "char option \<Rightarrow> bool" where
  "word_opt None = False"
| "word_opt (Some c) = is_word c"

fun next_char :: "string \<Rightarrow> char option" where
  "next_char [] = None"
| "next_char (x # xs) = Some x"

text \<open>
  \<open>match_here p prev s\<close> is the backtracking matcher at one position: \<open>s\<close> is the text
  from that position on, \<open>prev\<close> the character before it (\<open>None\<close> at the start of the
  block). The result is the length of the first match in the matcher's order of
  preference: a greedy star tries to take one more character before it tries the rest of
  the pattern, a lazy star tries the rest of the pattern first.
\<close>

fun match_here :: "atom list \<Rightarrow> char option \<Rightarrow> string \<Rightarrow> nat option" where
  "match_here [] prev s = Some 0"
| "match_here (Lit c # r) prev [] = None"
| "match_here (Lit c # r) prev (x # xs) =
     (if x = c then map_option Suc (match_here r (Some x) xs) else None)"
| "match_here (WordB # r) prev s =
     (if word_opt prev \<noteq> word_opt (next_char s) then match_here r prev s else None)"
| "match_here (Bol # r) prev s = (if prev = None then match_here r prev s else None)"
| "match_here (StarG k # r) prev [] = match_here r prev []"
| "match_here (StarG k # r) prev (x # xs) =
     (if cls k x
      then (case match_here (StarG k # r) (Some x) xs of
              Some n \<Rightarrow> Some (Suc n)
            | None \<Rightarrow> match_here r prev (x # xs))
      else match_here r prev (x # xs))"
| "match_here (StarL k # r) prev [] = match_here r prev []"
| "match_here (StarL k # r) prev (x # xs) =
     (case match_here r prev (x # xs) of
        Some n \<Rightarrow> Some n
      | None \<Rightarrow>
          if cls k x then map_option Suc (match_here (StarL k # r) (Some x) xs) else None)"

text \<open>
  \<open>pattern.globalMatch(text)\<close>: the matches from left to right, each one searched from
  the end of the one before, as pairs (capturedStart, capturedLength). No rule of this
  program matches the empty string (lemma \<open>rule_match_nonempty\<close> below), so what the
  library does after an empty match never shows; the model then moves on by one
  character, which keeps the function total.
\<close>

function globalMatch_from ::
  "atom list \<Rightarrow> char option \<Rightarrow> string \<Rightarrow> nat \<Rightarrow> (nat \<times> nat) list" where
  "globalMatch_from p prev [] base =
     (case match_here p prev [] of None \<Rightarrow> [] | Some n \<Rightarrow> [(base, n)])"
| "globalMatch_from p prev (x # xs) base =
     (case match_here p prev (x # xs) of
        None \<Rightarrow> globalMatch_from p (Some x) xs (Suc base)
      | Some n \<Rightarrow>
          (if n = 0 then (base, 0) # globalMatch_from p (Some x) xs (Suc base)
           else (base, n) #
                globalMatch_from p (Some (last (take n (x # xs)))) (drop n (x # xs))
                  (base + n)))"
  by pat_completeness auto
termination
  by (relation "measure (\<lambda>(p, prev, s, base). length s)") auto

definition globalMatch :: "atom list \<Rightarrow> string \<Rightarrow> (nat \<times> nat) list" where
  "globalMatch p s = globalMatch_from p None s 0"

subsection \<open>The rules\<close>

text \<open>
  The three \<open>QTextCharFormat\<close> objects of \<open>__init__\<close>: \<open>keyword_format\<close> (blue, bold),
  \<open>string_format\<close> (magenta) and \<open>comment_format\<close> (green).
\<close>

datatype text_format = keyword_format | string_format | comment_format

definition cobol_keywords :: "string list" where
  "cobol_keywords =
     [''ACCEPT'', ''ADD'', ''CALL'', ''CANCEL'', ''COMPUTE'', ''CONTINUE'',
      ''DELETE'', ''DISPLAY'', ''DIVIDE'', ''ELSE'', ''END-CALL'', ''END-IF'',
      ''EVALUATE'', ''GO'', ''IF'', ''INITIALIZE'', ''INSPECT'', ''MOVE'',
      ''MULTIPLY'', ''OPEN'', ''PERFORM'', ''READ'', ''REPLACE'', ''RETURN'',
      ''REWRITE'', ''SEARCH'', ''STOP'', ''STRING'', ''SUBTRACT'', ''UNSTRING'',
      ''WRITE'']"

text \<open>
  \<^verbatim>\<open>r'\b{}\b'.format(word)\<close>: the keywords hold letters and the hyphen only, which stand
  for themselves in a regular expression.
\<close>

definition keyword_pattern :: "string \<Rightarrow> atom list" where
  "keyword_pattern word = WordB # map Lit word @ [WordB]"

definition quote_pattern :: "char \<Rightarrow> atom list" where
  "quote_pattern q = [Lit q, StarL Dot, Lit q]"

definition string_patterns :: "atom list list" where
  "string_patterns = [quote_pattern (CHR 0x22), quote_pattern (CHR 0x27)]"

definition comment_pattern :: "atom list" where
  "comment_pattern = [Bol, StarG Space, Lit CHR ''*'', Lit CHR ''>'', StarG Dot]"

definition highlighting_rules :: "(atom list \<times> text_format) list" where
  "highlighting_rules =
     map (\<lambda>word. (keyword_pattern word, keyword_format)) cobol_keywords @
     map (\<lambda>pattern. (pattern, string_format)) string_patterns @
     [(comment_pattern, comment_format)]"

subsection \<open>highlightBlock\<close>

text \<open>
  \<open>QSyntaxHighlighter.setFormat(start, count, format)\<close> writes the format into the
  block's array of formats, one entry per position, from \<open>start\<close> up to the end of the
  block at most, and does nothing when \<open>start\<close> lies beyond the block.
\<close>

definition setFormat ::
  "nat \<Rightarrow> nat \<Rightarrow> text_format \<Rightarrow> text_format option list \<Rightarrow> text_format option list" where
  "setFormat start count fmt formats =
     (if start \<ge> length formats then formats
      else let end = min (start + count) (length formats)
           in take start formats @ replicate (end - start) (Some fmt) @ drop end formats)"

definition apply_rule ::
  "string \<Rightarrow> text_format option list \<Rightarrow> atom list \<times> text_format \<Rightarrow> text_format option list" where
  "apply_rule s formats rule =
     foldl (\<lambda>fs (start, len). setFormat start len (snd rule) fs) formats
       (globalMatch (fst rule) s)"

definition highlightBlock :: "string \<Rightarrow> text_format option list" where
  "highlightBlock s = foldl (apply_rule s) (replicate (length s) None) highlighting_rules"

text \<open>A position lies in one of the matches of a list.\<close>

definition covered :: "nat \<Rightarrow> (nat \<times> nat) list \<Rightarrow> bool" where
  "covered i ms = list_ex (\<lambda>(start, len). start \<le> i \<and> i < start + len) ms"

subsection \<open>Notions for the properties of the highlighter\<close>

text \<open>
  The character before position \<open>i\<close> of a text that follows the character \<open>prev\<close>, and the
  character before position \<open>i\<close> of a whole block.
\<close>

definition pv :: "char option \<Rightarrow> string \<Rightarrow> nat \<Rightarrow> char option" where
  "pv prev s i = (if i = 0 then prev else Some (s ! (i - 1)))"

definition prev_at :: "string \<Rightarrow> nat \<Rightarrow> char option" where
  "prev_at s i = pv None s i"

text \<open>
  The word \<open>w\<close> stands at position \<open>i\<close> of \<open>s\<close> as a whole word: there is no word character
  right before it and none right after it.
\<close>

definition occurs_at :: "string \<Rightarrow> string \<Rightarrow> nat \<Rightarrow> bool" where
  "occurs_at w s i \<longleftrightarrow> i + length w \<le> length s \<and> take (length w) (drop i s) = w"

definition whole_word_at :: "string \<Rightarrow> string \<Rightarrow> nat \<Rightarrow> bool" where
  "whole_word_at w s i \<longleftrightarrow>
     occurs_at w s i \<and> \<not> word_opt (prev_at s i) \<and>
     \<not> word_opt (next_char (drop (i + length w) s))"

definition is_upper :: "char \<Rightarrow> bool" where
  "is_upper c \<longleftrightarrow> c \<in> set ''ABCDEFGHIJKLMNOPQRSTUVWXYZ''"

text \<open>No proper suffix of the word that starts at a word boundary starts like the word.\<close>

definition no_self_overlap :: "string \<Rightarrow> bool" where
  "no_self_overlap w = list_all (\<lambda>d. is_word (w ! (d - 1)) \<or> w ! d \<noteq> w ! 0) [1..<length w]"

text \<open>The comment marker is the first token of the line that is not whitespace.\<close>

definition comment_line :: "string \<Rightarrow> bool" where
  "comment_line s = (take 2 (dropWhile is_space s) = ''*>'')"

text \<open>A line holds no line feed.\<close>

definition is_line :: "string \<Rightarrow> bool" where
  "is_line s = list_all (\<lambda>c. c \<noteq> CHR 0x0A) s"

text \<open>
  The distance to the next character \<open>q\<close>, when no line feed comes before it: what the lazy
  \<^verbatim>\<open>.*?\<close> followed by \<open>q\<close> skips.
\<close>

fun closing :: "char \<Rightarrow> string \<Rightarrow> nat option" where
  "closing q [] = None"
| "closing q (x # xs) =
     (if x = q then Some 0
      else if x = CHR 0x0A then None
      else map_option Suc (closing q xs))"

text \<open>What the proofs need of a keyword, checked on the vocabulary by computation.\<close>

definition keyword_ok :: "string \<Rightarrow> bool" where
  "keyword_ok w \<longleftrightarrow>
     w \<noteq> [] \<and> is_word (hd w) \<and> is_word (last w) \<and>
     list_all (\<lambda>c. is_upper c \<or> c = CHR ''-'') w \<and> no_self_overlap w"

text \<open>The line \<^verbatim>\<open>MOVE "IF" TO X\<close>.\<close>

definition example_line :: string where
  "example_line = ''MOVE '' @ [CHR 0x22] @ ''IF'' @ [CHR 0x22] @ '' TO X''"

text \<open>A line with a string literal and, after it, a quote that is never closed.\<close>

definition unterminated_line :: string where
  "unterminated_line = ''DISPLAY '' @ [CHR 0x22] @ ''A'' @ [CHR 0x22] @ '' '' @ [CHR 0x22] @ ''B''"

text \<open>
  Some declared keyword stands as a whole word over position \<open>j\<close> of \<open>s\<close>. A whole word over
  \<open>j\<close> starts at \<open>j\<close> or before it.
\<close>

definition keyword_word_over :: "string \<Rightarrow> nat \<Rightarrow> bool" where
  "keyword_word_over s j =
     list_ex (\<lambda>v. list_ex (\<lambda>st. whole_word_at v s st \<and> j < st + length v) [0..<Suc j])
       cobol_keywords"

text \<open>
  \<open>u\<close> is the word \<open>w\<close> written in lower or mixed case: the same letters when lower-case
  letters are turned into upper case, and not \<open>w\<close> itself.
\<close>

definition is_lower :: "char \<Rightarrow> bool" where
  "is_lower c \<longleftrightarrow> c \<in> set ''abcdefghijklmnopqrstuvwxyz''"

definition to_upper :: "char \<Rightarrow> char" where
  "to_upper c =
     (case map_of (zip ''abcdefghijklmnopqrstuvwxyz'' ''ABCDEFGHIJKLMNOPQRSTUVWXYZ'') c of
        None \<Rightarrow> c
      | Some d \<Rightarrow> d)"

definition case_variant :: "string \<Rightarrow> string \<Rightarrow> bool" where
  "case_variant u w \<longleftrightarrow> map to_upper u = w \<and> u \<noteq> w"

section \<open>The editor window (class CobolIDE of app.py)\<close>

subsection \<open>State, inputs and effects\<close>

text \<open>
  The session: the path of the open file (\<open>self.current_file\<close>), the text of the editor
  and the modification flag of its document.
\<close>

record ide =
  current_file :: "string option"
  plain_text :: string
  modified :: bool

datatype button = Save | Discard | Cancel

datatype box_kind = Information | Warning | Critical

text \<open>
  What \<open>subprocess.run\<close> does: the process ran and returned (exit status, standard
  output, standard error), the executable was not found, or another exception with its
  text.
\<close>

datatype run_outcome =
    Completed int string string
  | FileNotFoundError
  | OtherException string

text \<open>What a handler shows or starts, in order.\<close>

datatype ui_event =
    ShowMessage string
  | MessageBox box_kind string string
  | Prompt string
  | SetWindowTitle string
  | SubprocessRun "string list" "string \<Rightarrow> string option"

text \<open>
  Everything a handler reads from outside the session: the environment and the platform,
  the path functions of the platform, the answers of the dialogs, and the outcome of
  reading and writing a file and of running the compiler.
\<close>

record world =
  environ :: "string \<Rightarrow> string option"
  platform :: string
  path_join :: "string \<Rightarrow> string list \<Rightarrow> string"
  pathsep :: string
  basename :: "string \<Rightarrow> string"
  getOpenFileName :: string
  getSaveFileName :: "string \<Rightarrow> string"
  warning_reply :: "string \<Rightarrow> button"
  read_file :: "string \<Rightarrow> string + string"
  write_file :: "string \<Rightarrow> string \<Rightarrow> string option"
  subprocess_run :: "string list \<Rightarrow> (string \<Rightarrow> string option) \<Rightarrow> run_outcome"

text \<open>\<open>posixpath.join\<close>, the \<open>os.path.join\<close> of Linux and macOS.\<close>

fun posix_join :: "string \<Rightarrow> string list \<Rightarrow> string" where
  "posix_join path [] = path"
| "posix_join path (b # bs) =
     posix_join
       (if b \<noteq> [] \<and> hd b = CHR ''/'' then b
        else if path = [] \<or> last path = CHR ''/'' then path @ b
        else path @ ''/'' @ b) bs"

text \<open>
  The editor widget: \<open>clear()\<close> and \<open>setPlainText()\<close> replace the content and leave the
  document unmodified; \<open>document().setModified(b)\<close> sets the flag.
\<close>

definition editor_clear :: "ide \<Rightarrow> ide" where
  "editor_clear s = s\<lparr>plain_text := [], modified := False\<rparr>"

definition editor_setPlainText :: "string \<Rightarrow> ide \<Rightarrow> ide" where
  "editor_setPlainText content s = s\<lparr>plain_text := content, modified := False\<rparr>"

definition setModified :: "bool \<Rightarrow> ide \<Rightarrow> ide" where
  "setModified b s = s\<lparr>modified := b\<rparr>"

text \<open>
  Modelled from the spec: the mutation of the content buffer by the user. It happens
  inside the editor widget, which is not part of app.py; the spec says that any content
  mutation sets the dirty flag.
\<close>

definition edit_content :: "string \<Rightarrow> ide \<Rightarrow> ide" where
  "edit_content content s = s\<lparr>plain_text := content, modified := True\<rparr>"

subsection \<open>Helper methods\<close>

definition update_window_title :: "world \<Rightarrow> ide \<Rightarrow> ui_event" where
  "update_window_title w s =
     (case current_file s of
        None \<Rightarrow> SetWindowTitle ''GNU Cobol IDE - Untitled''
      | Some f \<Rightarrow>
          if f = [] then SetWindowTitle ''GNU Cobol IDE - Untitled''
          else SetWindowTitle (''GNU Cobol IDE - '' @ basename w f))"

definition document_is_modified :: "ide \<Rightarrow> bool" where
  "document_is_modified s = modified s"

definition open_file :: "world \<Rightarrow> ide \<Rightarrow> string \<Rightarrow> ide \<times> ui_event list" where
  "open_file w s file_path =
     (case read_file w file_path of
        Inl e \<Rightarrow> (s, [MessageBox Critical ''Error'' (''Could not open file:'' @ [CHR 0x0A] @ e)])
      | Inr content \<Rightarrow>
          (let s1 = editor_setPlainText content s;
               s2 = s1\<lparr>current_file := Some file_path\<rparr>
           in (setModified False s2,
               [update_window_title w s2, ShowMessage (''File opened: '' @ file_path)])))"

definition save_to_path :: "world \<Rightarrow> ide \<Rightarrow> string \<Rightarrow> ide \<times> ui_event list" where
  "save_to_path w s file_path =
     (case write_file w file_path (plain_text s) of
        Some e \<Rightarrow> (s, [MessageBox Critical ''Error'' (''Could not save file:'' @ [CHR 0x0A] @ e)])
      | None \<Rightarrow>
          (let s1 = s\<lparr>current_file := Some file_path\<rparr>
           in (setModified False s1,
               [update_window_title w s1, ShowMessage (''File saved: '' @ file_path)])))"

subsection \<open>File handling\<close>

definition handle_save_file_as :: "world \<Rightarrow> ide \<Rightarrow> ide \<times> ui_event list" where
  "handle_save_file_as w s =
     (let file_path = getSaveFileName w ''Save As''
      in if file_path \<noteq> [] then save_to_path w s file_path else (s, []))"

definition handle_save_file :: "world \<Rightarrow> ide \<Rightarrow> ide \<times> ui_event list" where
  "handle_save_file w s =
     (case current_file s of
        None \<Rightarrow> handle_save_file_as w s
      | Some f \<Rightarrow> if f = [] then handle_save_file_as w s else save_to_path w s f)"

text \<open>
  \<open>_prompt_save_discard_cancel\<close> returns \<open>True\<close> after Save (whatever the save did),
  \<open>False\<close> after Discard and \<open>None\<close> after Cancel.
\<close>

definition prompt_save_discard_cancel ::
  "world \<Rightarrow> ide \<Rightarrow> string \<Rightarrow> bool option \<times> ide \<times> ui_event list" where
  "prompt_save_discard_cancel w s message =
     (case warning_reply w message of
        Save \<Rightarrow> (let (s1, evs) = handle_save_file w s in (Some True, s1, Prompt message # evs))
      | Discard \<Rightarrow> (Some False, s, [Prompt message])
      | Cancel \<Rightarrow> (None, s, [Prompt message]))"

text \<open>Python's \<open>not r\<close> for \<open>r\<close> of type \<open>Optional[bool]\<close>.\<close>

fun py_not :: "bool option \<Rightarrow> bool" where
  "py_not None = True"
| "py_not (Some b) = (\<not> b)"

definition new_document :: "world \<Rightarrow> ide \<Rightarrow> ide \<times> ui_event list" where
  "new_document w s =
     (let s1 = (editor_clear s)\<lparr>current_file := None\<rparr>
      in (s1, [update_window_title w s1, ShowMessage ''New file created'']))"

definition handle_new_file :: "world \<Rightarrow> ide \<Rightarrow> ide \<times> ui_event list" where
  "handle_new_file w s =
     (if document_is_modified s
      then (let (r, s1, evs) =
                  prompt_save_discard_cancel w s ''Do you want to save before creating a new file?''
            in if py_not r then (s1, evs)
               else (let (s2, evs2) = new_document w s1 in (s2, evs @ evs2)))
      else new_document w s)"

definition choose_and_open :: "world \<Rightarrow> ide \<Rightarrow> ide \<times> ui_event list" where
  "choose_and_open w s =
     (let file_path = getOpenFileName w
      in if file_path \<noteq> [] then open_file w s file_path else (s, []))"

definition handle_open_file :: "world \<Rightarrow> ide \<Rightarrow> ide \<times> ui_event list" where
  "handle_open_file w s =
     (if document_is_modified s
      then (let (r, s1, evs) =
                  prompt_save_discard_cancel w s ''Do you want to save before opening a new file?''
            in if py_not r then (s1, evs)
               else (let (s2, evs2) = choose_and_open w s1 in (s2, evs @ evs2)))
      else choose_and_open w s)"

text \<open>\<open>closeEvent\<close>: the first component says whether the event is accepted.\<close>

definition closeEvent :: "world \<Rightarrow> ide \<Rightarrow> bool \<times> ide \<times> ui_event list" where
  "closeEvent w s =
     (if document_is_modified s
      then (let (r, s1, evs) =
                  prompt_save_discard_cancel w s
                    ''Do you want to save your changes before exiting?''
            in if r = None then (False, s1, evs) else (True, s1, evs))
      else (True, s, []))"

subsection \<open>Compilation\<close>

definition startswith :: "string \<Rightarrow> string \<Rightarrow> bool" where
  "startswith s pre = (take (length pre) s = pre)"

text \<open>
  The variable \<open>gnubase\<close>: the value of GNUBASE when it is set and not empty, else the
  default of the platform, else nothing.
\<close>

definition gnubase :: "(string \<Rightarrow> string option) \<Rightarrow> string \<Rightarrow> string option" where
  "gnubase env plat =
     (let g = env ''GNUBASE''
      in if g \<noteq> None \<and> g \<noteq> Some [] then g
         else if startswith plat ''win'' then Some (''C:'' @ [CHR 0x5C] @ ''GnuCOBOL'')
         else if startswith plat ''darwin'' \<or> startswith plat ''linux'' then Some ''/usr/local''
         else None)"

text \<open>\<open>env.get(key, '')\<close>.\<close>

definition env_get :: "(string \<Rightarrow> string option) \<Rightarrow> string \<Rightarrow> string" where
  "env_get env key = (case env key of None \<Rightarrow> [] | Some v \<Rightarrow> v)"

definition compile_env :: "world \<Rightarrow> string \<Rightarrow> (string \<Rightarrow> string option)" where
  "compile_env w g =
     (let env0 = environ w;
          env1 = env0(''GNUBASE'' \<mapsto> g);
          env2 = env1(''COBPATH'' \<mapsto>
                   path_join w g [''lib'', ''gnucobol''] @ pathsep w @
                   path_join w g [''lib'', ''cobc''] @ pathsep w @
                   env_get env1 ''COBPATH'')
      in env2(''PATH'' \<mapsto> path_join w g [''bin''] @ pathsep w @ env_get env2 ''PATH''))"

definition cobc_executable :: "string \<Rightarrow> string" where
  "cobc_executable plat = (if startswith plat ''win'' then ''cobc.exe'' else ''cobc'')"

definition compile_command :: "world \<Rightarrow> string \<Rightarrow> string \<Rightarrow> string \<Rightarrow> string list" where
  "compile_command w g exe_path src =
     [path_join w g [''bin'', cobc_executable (platform w)], ''-x'', ''-o'', exe_path, src]"

text \<open>The \<open>try\<close> block: what is shown for each outcome of \<open>subprocess.run\<close>.\<close>

definition cobc_not_found_text :: string where
  "cobc_not_found_text =
     ''Could not find the '' @ [CHR 0x27] @ ''cobc'' @ [CHR 0x27] @ '' compiler.'' @ [CHR 0x0A] @
     ''Make sure GnuCOBOL is installed and in your system PATH, or specify its full path.''"

fun compile_report :: "run_outcome \<Rightarrow> ui_event list" where
  "compile_report (Completed returncode out err) =
     (if returncode = 0
      then [ShowMessage ''Compilation successful!'',
            MessageBox Information ''Success'' ''Compilation successful!'']
      else [ShowMessage ''Compilation failed'',
            MessageBox Critical ''Error'' (''Compilation failed:'' @ [CHR 0x0A] @ err)])"
| "compile_report FileNotFoundError =
     [MessageBox Critical ''GnuCOBOL Not Found'' cobc_not_found_text]"
| "compile_report (OtherException e) =
     [ShowMessage ''Error during compilation'',
      MessageBox Critical ''Error'' (''Could not compile file:'' @ [CHR 0x0A] @ e)]"

definition save_before_compiling :: ui_event where
  "save_before_compiling = MessageBox Warning ''Warning'' ''Please save the file before compiling.''"

definition handle_compile_cobol :: "world \<Rightarrow> ide \<Rightarrow> ide \<times> ui_event list" where
  "handle_compile_cobol w s =
     (case current_file s of
        None \<Rightarrow> (s, [save_before_compiling])
      | Some src \<Rightarrow>
          if src = [] then (s, [save_before_compiling])
          else (let exe_path = getSaveFileName w ''Compile to Executable''
                in if exe_path = [] then (s, [])
                   else (case gnubase (environ w) (platform w) of
                           None \<Rightarrow>
                             (s, [MessageBox Critical ''Configuration Error''
                                    ''Unsupported operating system or GNUBASE not set.''])
                         | Some g \<Rightarrow>
                             (let env = compile_env w g;
                                  cmd = compile_command w g exe_path src
                              in (s, SubprocessRun cmd env # compile_report (subprocess_run w cmd env))))))"

text \<open>The events of a handler that start a process.\<close>

fun is_run :: "ui_event \<Rightarrow> bool" where
  "is_run (SubprocessRun cmd env) = True"
| "is_run _ = False"

text \<open>The command and the environment of the processes a handler starts.\<close>

fun run_command :: "ui_event \<Rightarrow> string list" where
  "run_command (SubprocessRun cmd env) = cmd"
| "run_command _ = []"

fun run_env :: "ui_event \<Rightarrow> (string \<Rightarrow> string option)" where
  "run_env (SubprocessRun cmd env) = env"
| "run_env _ = Map.empty"

subsection \<open>A Linux machine and a session, for concrete runs\<close>

text \<open>\<open>posixpath.basename\<close>: what follows the last slash.\<close>

definition posix_basename :: "string \<Rightarrow> string" where
  "posix_basename p = rev (takeWhile (\<lambda>c. c \<noteq> CHR ''/'') (rev p))"

definition linux_world :: world where
  "linux_world =
     \<lparr>environ = map_of [(''PATH'', ''/usr/bin'')],
      platform = ''linux'',
      path_join = posix_join,
      pathsep = '':'',
      basename = posix_basename,
      getOpenFileName = ''/src/other.cbl'',
      getSaveFileName = (\<lambda>title. if title = ''Save As'' then ''/src/copy.cbl'' else ''/out/prog''),
      warning_reply = (\<lambda>message. Cancel),
      read_file = (\<lambda>path. Inr ''STOP RUN.''),
      write_file = (\<lambda>path content. None),
      subprocess_run = (\<lambda>cmd env. Completed 0 [] [])\<rparr>"

definition saved_session :: ide where
  "saved_session = \<lparr>current_file = Some ''/src/prog.cbl'', plain_text = ''DISPLAY X.'', modified = False\<rparr>"

definition dirty_session :: ide where
  "dirty_session = \<lparr>current_file = Some ''/src/prog.cbl'', plain_text = ''DISPLAY Y.'', modified = True\<rparr>"

definition unsaved_session :: ide where
  "unsaved_session = \<lparr>current_file = None, plain_text = ''DISPLAY X.'', modified = True\<rparr>"

section \<open>Properties of the highlighter\<close>

subsection \<open>setFormat and the order of the rules\<close>

lemma length_setFormat [simp]: "length (setFormat st c f a) = length a"
  by (auto simp add: setFormat_def Let_def)

lemma nth_setFormat:
  "i < length a \<Longrightarrow> setFormat st c f a ! i = (if st \<le> i \<and> i < st + c then Some f else a ! i)"
  by (auto simp add: setFormat_def Let_def nth_append min_def)

lemma covered_Nil [simp]: "\<not> covered i []"
  by (simp add: covered_def)

lemma covered_Cons [simp]:
  "covered i (m # ms) \<longleftrightarrow> (fst m \<le> i \<and> i < fst m + snd m) \<or> covered i ms"
  by (cases m) (simp add: covered_def)

lemma covered_iff: "covered i ms \<longleftrightarrow> (\<exists>st l. (st, l) \<in> set ms \<and> st \<le> i \<and> i < st + l)"
  by (auto simp add: covered_def list_ex_iff)

lemma length_foldl_setFormat [simp]:
  "length (foldl (\<lambda>fs (st, l). setFormat st l f fs) a ms) = length a"
  by (induction ms arbitrary: a) (auto split: prod.splits)

lemma nth_foldl_setFormat:
  "i < length a \<Longrightarrow>
   foldl (\<lambda>fs (st, l). setFormat st l f fs) a ms ! i = (if covered i ms then Some f else a ! i)"
  by (induction ms arbitrary: a) (auto simp add: nth_setFormat split: prod.splits)

lemma length_apply_rule [simp]: "length (apply_rule s a r) = length a"
  by (simp add: apply_rule_def)

lemma nth_apply_rule:
  "i < length a \<Longrightarrow>
   apply_rule s a r ! i = (if covered i (globalMatch (fst r) s) then Some (snd r) else a ! i)"
  by (simp add: apply_rule_def nth_foldl_setFormat)

lemma length_foldl_apply_rule [simp]: "length (foldl (apply_rule s) a rs) = length a"
  by (induction rs arbitrary: a) auto

lemma nth_foldl_apply_rule:
  "i < length a \<Longrightarrow>
   foldl (apply_rule s) a rs ! i =
     (case find (\<lambda>r. covered i (globalMatch (fst r) s)) (rev rs) of
        None \<Rightarrow> a ! i
      | Some r \<Rightarrow> Some (snd r))"
  by (induction rs rule: rev_induct) (auto simp add: nth_apply_rule)

lemma length_highlightBlock [simp]: "length (highlightBlock s) = length s"
  by (simp add: highlightBlock_def)

lemma nth_highlightBlock:
  "i < length s \<Longrightarrow>
   highlightBlock s ! i =
     (case find (\<lambda>r. covered i (globalMatch (fst r) s)) (rev highlighting_rules) of
        None \<Rightarrow> None
      | Some r \<Rightarrow> Some (snd r))"
  by (simp add: highlightBlock_def nth_foldl_apply_rule split: option.splits)

subsection \<open>The matcher\<close>

lemma match_here_le: "match_here p prev s = Some n \<Longrightarrow> n \<le> length s"
  by (induction p prev s arbitrary: n rule: match_here.induct)
    (auto split: if_splits option.splits)

lemma pv_0 [simp]: "pv prev s 0 = prev"
  by (simp add: pv_def)

lemma pv_Cons_Suc [simp]: "pv prev (x # xs) (Suc k) = pv (Some x) xs k"
  by (cases k) (simp_all add: pv_def)

lemma pv_drop:
  "0 < n \<Longrightarrow> n \<le> length s \<Longrightarrow> pv (Some (last (take n s))) (drop n s) k = pv prev s (n + k)"
proof -
  assume n: "0 < n" "n \<le> length s"
  then have "take n s \<noteq> []" by auto
  then have "last (take n s) = take n s ! (length (take n s) - 1)"
    by (rule last_conv_nth)
  with n have "last (take n s) = s ! (n - 1)"
    by (simp add: min_def)
  with n show ?thesis
    by (cases k) (simp_all add: pv_def)
qed

lemma globalMatch_from_sound:
  "(st, l) \<in> set (globalMatch_from p prev s base) \<Longrightarrow>
   \<exists>k \<le> length s. st = base + k \<and> match_here p (pv prev s k) (drop k s) = Some l"
proof (induction p prev s base rule: globalMatch_from.induct)
  case (1 p prev base)
  then show ?case by (auto split: option.splits)
next
  case (2 p prev x xs base)
  show ?case
  proof (cases "match_here p prev (x # xs)")
    case None
    with 2 obtain k where "k \<le> length xs" "st = Suc base + k"
      "match_here p (pv (Some x) xs k) (drop k xs) = Some l"
      by auto
    then show ?thesis by (intro exI [of _ "Suc k"]) simp
  next
    case (Some n)
    show ?thesis
    proof (cases "(st, l) = (base, n)")
      case True
      with Some show ?thesis by (intro exI [of _ 0]) simp
    next
      case False
      show ?thesis
      proof (cases "n = 0")
        case True
        with 2 Some False obtain k where "k \<le> length xs" "st = Suc base + k"
          "match_here p (pv (Some x) xs k) (drop k xs) = Some l"
          by auto
        then show ?thesis by (intro exI [of _ "Suc k"]) simp
      next
        case n: False
        from Some have le: "n \<le> length (x # xs)" by (rule match_here_le)
        from 2 Some False n obtain k where k: "k \<le> length (drop n (x # xs))" "st = base + n + k"
          "match_here p (pv (Some (last (take n (x # xs)))) (drop n (x # xs)) k)
             (drop k (drop n (x # xs))) = Some l"
          by auto
        from n le have "pv (Some (last (take n (x # xs)))) (drop n (x # xs)) k = pv prev (x # xs) (n + k)"
          by (intro pv_drop) auto
        with k le show ?thesis
          by (intro exI [of _ "n + k"]) (auto simp add: add.commute)
      qed
    qed
  qed
qed

lemma globalMatch_sound:
  "(st, l) \<in> set (globalMatch p s) \<Longrightarrow>
   st \<le> length s \<and> match_here p (prev_at s st) (drop st s) = Some l"
  using globalMatch_from_sound [of st l p None s 0] by (auto simp add: globalMatch_def prev_at_def)

lemma globalMatch_from_complete:
  "k \<le> length s \<Longrightarrow> match_here p (pv prev s k) (drop k s) = Some n \<Longrightarrow>
   (\<And>j m. j < k \<Longrightarrow> match_here p (pv prev s j) (drop j s) = Some m \<Longrightarrow> 0 < m \<and> j + m \<le> k) \<Longrightarrow>
   (base + k, n) \<in> set (globalMatch_from p prev s base)"
proof (induction p prev s base arbitrary: k rule: globalMatch_from.induct)
  case (1 p prev base)
  then show ?case by simp
next
  case (2 p prev x xs base)
  show ?case
  proof (cases k)
    case 0
    with "2.prems" show ?thesis by auto
  next
    case (Suc k')
    show ?thesis
    proof (cases "match_here p prev (x # xs)")
      case None
      have "(Suc base + k', n) \<in> set (globalMatch_from p (Some x) xs (Suc base))"
      proof (rule "2.IH"(1) [OF None])
        show "k' \<le> length xs" using "2.prems"(1) Suc by simp
        show "match_here p (pv (Some x) xs k') (drop k' xs) = Some n"
          using "2.prems"(2) Suc by simp
        fix j m assume "j < k'" "match_here p (pv (Some x) xs j) (drop j xs) = Some m"
        then show "0 < m \<and> j + m \<le> k'"
          using "2.prems"(3) [of "Suc j" m] Suc by simp
      qed
      with None Suc show ?thesis by simp
    next
      case (Some m)
      from "2.prems"(3) [of 0 m] Some Suc have m: "0 < m" "m \<le> k" by auto
      from Some have le: "m \<le> length (x # xs)" by (rule match_here_le)
      have pvd: "pv (Some (last (take m (x # xs)))) (drop m (x # xs)) j = pv prev (x # xs) (m + j)" for j
        using m le by (intro pv_drop) auto
      have "(base + m + (k - m), n) \<in>
              set (globalMatch_from p (Some (last (take m (x # xs)))) (drop m (x # xs)) (base + m))"
      proof (rule "2.IH"(3) [OF Some])
        show "m \<noteq> 0" using m by simp
        show "k - m \<le> length (drop m (x # xs))" using "2.prems"(1) m by simp
        show "match_here p (pv (Some (last (take m (x # xs)))) (drop m (x # xs)) (k - m))
                (drop (k - m) (drop m (x # xs))) = Some n"
          using "2.prems"(2) m by (simp add: pvd add.commute)
        fix j m' assume "j < k - m"
          "match_here p (pv (Some (last (take m (x # xs)))) (drop m (x # xs)) j)
             (drop j (drop m (x # xs))) = Some m'"
        moreover from this have "m + j < k" by arith
        ultimately have "0 < m' \<and> m + j + m' \<le> k"
          using "2.prems"(3) [of "m + j" m'] by (simp add: pvd add.commute)
        then show "0 < m' \<and> j + m' \<le> k - m" by arith
      qed
      with Some m show ?thesis by simp
    qed
  qed
qed

lemma globalMatch_complete:
  "k \<le> length s \<Longrightarrow> match_here p (prev_at s k) (drop k s) = Some n \<Longrightarrow>
   (\<And>j m. j < k \<Longrightarrow> match_here p (prev_at s j) (drop j s) = Some m \<Longrightarrow> 0 < m \<and> j + m \<le> k) \<Longrightarrow>
   (k, n) \<in> set (globalMatch p s)"
  using globalMatch_from_complete [of k s p None n 0]
  by (simp add: globalMatch_def prev_at_def)

lemma keywords_ok: "list_all keyword_ok cobol_keywords"
  by code_simp

lemma map_option_add_0 [simp]: "map_option ((+) (0::nat)) x = x"
  by (cases x) auto

lemma keyword_okD: "w \<in> set cobol_keywords \<Longrightarrow> keyword_ok w"
  using keywords_ok by (simp add: list_all_iff)

subsection \<open>Keywords\<close>

lemma match_here_lits:
  "match_here (map Lit w @ r) prev s =
     (if length w \<le> length s \<and> take (length w) s = w
      then map_option (\<lambda>n. length w + n)
             (match_here r (if w = [] then prev else Some (last w)) (drop (length w) s))
      else None)"
proof (induction w arbitrary: prev s)
  case Nil
  then show ?case by (simp add: option.map_ident)
next
  case (Cons c w)
  show ?case
  proof (cases s)
    case Nil
    then show ?thesis by simp
  next
    case (Cons x xs)
    then show ?thesis
      by (cases "w = []") (auto simp add: Cons.IH option.map_comp comp_def)
  qed
qed

lemma match_here_keyword:
  assumes "w \<noteq> []"
  shows "match_here (keyword_pattern w) prev s =
     (if word_opt prev \<noteq> word_opt (next_char s) \<and> length w \<le> length s \<and>
         take (length w) s = w \<and>
         is_word (last w) \<noteq> word_opt (next_char (drop (length w) s))
      then Some (length w) else None)"
  using assms by (simp add: keyword_pattern_def match_here_lits)

lemma next_char_prefix:
  "w \<noteq> [] \<Longrightarrow> take (length w) s = w \<Longrightarrow> next_char s = Some (hd w)"
  by (cases s; cases w) auto

lemma keyword_match_iff:
  assumes "keyword_ok w" and "i \<le> length s"
  shows "match_here (keyword_pattern w) (prev_at s i) (drop i s) = Some l \<longleftrightarrow>
         l = length w \<and> whole_word_at w s i"
proof -
  from assms(1) have w: "w \<noteq> []" "is_word (hd w)" "is_word (last w)"
    by (simp_all add: keyword_ok_def)
  have "take (length w) (drop i s) = w \<Longrightarrow> next_char (drop i s) = Some (hd w)"
    using w(1) by (rule next_char_prefix)
  with w assms(2) show ?thesis
    by (auto simp add: match_here_keyword whole_word_at_def occurs_at_def add.commute)
qed

subsection \<open>String literals\<close>

lemma match_here_lazy_quote:
  "match_here [StarL Dot, Lit q] prev s = map_option Suc (closing q s)"
  by (induction s arbitrary: prev) (auto simp add: option.map_comp comp_def)

lemma match_here_quote:
  "match_here (quote_pattern q) prev s =
     (case s of [] \<Rightarrow> None
      | x # xs \<Rightarrow> if x = q then map_option (\<lambda>k. k + 2) (closing q xs) else None)"
  by (cases s) (auto simp add: quote_pattern_def match_here_lazy_quote option.map_comp comp_def)

lemma closing_Some:
  "closing q xs = Some k \<Longrightarrow> k < length xs \<and> xs ! k = q \<and> (\<forall>j<k. xs ! j \<noteq> q)"
proof (induction xs arbitrary: k)
  case Nil
  then show ?case by simp
next
  case (Cons x xs)
  show ?case
  proof (cases "x = q")
    case True
    with Cons.prems show ?thesis by simp
  next
    case False
    with Cons.prems obtain k' where k': "closing q xs = Some k'" "k = Suc k'"
      by (auto split: if_splits)
    from Cons.IH [OF k'(1)] False k'(2) show ?thesis
      by (auto simp add: nth_Cons split: nat.splits)
  qed
qed

lemma closing_None: "q \<notin> set xs \<Longrightarrow> closing q xs = None"
  by (induction xs) auto

subsection \<open>Comments\<close>

lemma match_here_dot_star:
  "match_here [StarG Dot] prev s = Some (length (takeWhile (\<lambda>c. c \<noteq> CHR 0x0A) s))"
  by (induction s arbitrary: prev) auto

lemma match_here_space_star:
  assumes "\<not> is_space a"
  shows "match_here (StarG Space # Lit a # r) prev s =
     (case dropWhile is_space s of
        [] \<Rightarrow> None
      | x # xs \<Rightarrow>
          if x = a
          then map_option (\<lambda>n. length (takeWhile is_space s) + Suc n) (match_here r (Some a) xs)
          else None)"
proof (induction s arbitrary: prev)
  case Nil
  then show ?case by simp
next
  case (Cons x xs)
  show ?case
  proof (cases "is_space x")
    case True
    with assms have xa: "x \<noteq> a" by auto
    show ?thesis
    proof (cases "dropWhile is_space xs")
      case Nil
      with True xa show ?thesis
        by (simp add: Cons.IH del: dropWhile_eq_Nil_conv)
    next
      case (Cons y ys)
      with True xa show ?thesis
        by (cases "match_here r (Some a) ys") (simp_all add: Cons.IH)
    qed
  next
    case False
    then show ?thesis
      by (auto simp add: option.map_comp comp_def)
  qed
qed

lemma star_not_space: "\<not> is_space CHR ''*''"
  by (simp add: is_space_def)

lemma match_here_comment:
  "match_here comment_pattern prev s =
     (if prev = None \<and> comment_line s
      then Some (length (takeWhile is_space s) + 2 +
                 length (takeWhile (\<lambda>c. c \<noteq> CHR 0x0A) (drop 2 (dropWhile is_space s))))
      else None)"
proof (cases "dropWhile is_space s")
  case Nil
  then show ?thesis
    by (simp add: comment_pattern_def comment_line_def match_here_space_star [OF star_not_space]
        del: dropWhile_eq_Nil_conv)
next
  case (Cons x xs)
  then show ?thesis
    by (cases xs)
      (simp_all add: comment_pattern_def comment_line_def match_here_dot_star
        match_here_space_star [OF star_not_space])
qed

lemma takeWhile_line: "is_line s \<Longrightarrow> takeWhile (\<lambda>c. c \<noteq> CHR 0x0A) s = s"
  by (induction s) (auto simp add: is_line_def)

lemma is_line_drop: "is_line s \<Longrightarrow> is_line (drop n s)"
  by (auto simp add: is_line_def list_all_iff dest: in_set_dropD)

lemma is_line_dropWhile: "is_line s \<Longrightarrow> is_line (dropWhile P s)"
  by (auto simp add: is_line_def list_all_iff dest: set_dropWhileD)

lemma comment_line_length:
  assumes "comment_line s"
  shows "Suc (Suc (length (takeWhile is_space s) + (length (dropWhile is_space s) - 2))) = length s"
proof -
  have "length (takeWhile is_space s) + length (dropWhile is_space s) =
        length (takeWhile is_space s @ dropWhile is_space s)"
    by (simp only: length_append)
  also have "\<dots> = length s"
    by (simp only: takeWhile_dropWhile_id)
  finally have "length (takeWhile is_space s) + length (dropWhile is_space s) = length s" .
  moreover from assms have "length (take 2 (dropWhile is_space s)) = 2"
    by (simp only: comment_line_def) simp
  then have "2 \<le> length (dropWhile is_space s)"
    by simp
  ultimately show ?thesis by arith
qed

lemma match_here_comment_line:
  assumes "is_line s"
  shows "match_here comment_pattern prev s =
           (if prev = None \<and> comment_line s then Some (length s) else None)"
proof -
  from assms have "is_line (drop 2 (dropWhile is_space s))"
    by (intro is_line_drop is_line_dropWhile)
  then have tw: "takeWhile (\<lambda>c. c \<noteq> CHR 0x0A) (drop 2 (dropWhile is_space s)) =
             drop 2 (dropWhile is_space s)"
    by (rule takeWhile_line)
  show ?thesis
    by (simp add: match_here_comment comment_line_length tw)
qed

lemma prev_at_None [simp]: "prev_at s i = None \<longleftrightarrow> i = 0"
  by (simp add: prev_at_def pv_def)

lemma comment_matches_sound:
  assumes "(st, l) \<in> set (globalMatch comment_pattern s)"
  shows "st = 0 \<and> comment_line s \<and> (is_line s \<longrightarrow> l = length s)"
proof -
  from globalMatch_sound [OF assms]
  have m: "match_here comment_pattern (prev_at s st) (drop st s) = Some l" by simp
  then have st: "st = 0" by (simp add: match_here_comment split: if_splits)
  with m have m0: "match_here comment_pattern None s = Some l" by (simp add: prev_at_def)
  then have c: "comment_line s" by (simp add: match_here_comment split: if_splits)
  have "l = length s" if "is_line s"
    using m0 c by (simp add: match_here_comment_line [OF that])
  with st c show ?thesis by simp
qed

lemma comment_matches_complete:
  assumes "comment_line s" and "is_line s"
  shows "(0, length s) \<in> set (globalMatch comment_pattern s)"
proof (rule globalMatch_complete)
  show "0 \<le> length s" by simp
  show "match_here comment_pattern (prev_at s 0) (drop 0 s) = Some (length s)"
    using assms by (simp add: match_here_comment_line prev_at_def)
qed simp

lemma covered_comment:
  assumes "is_line s"
  shows "covered i (globalMatch comment_pattern s) \<longleftrightarrow> comment_line s \<and> i < length s"
proof
  assume "covered i (globalMatch comment_pattern s)"
  then obtain st l where m: "(st, l) \<in> set (globalMatch comment_pattern s)" "st \<le> i" "i < st + l"
    unfolding covered_iff by blast
  from comment_matches_sound [OF m(1)] assms m(2,3)
  show "comment_line s \<and> i < length s" by simp
next
  assume a: "comment_line s \<and> i < length s"
  with assms have "(0, length s) \<in> set (globalMatch comment_pattern s)"
    by (intro comment_matches_complete) simp_all
  with a show "covered i (globalMatch comment_pattern s)"
    unfolding covered_iff by (intro exI [of _ 0] exI [of _ "length s"]) simp
qed

subsection \<open>The format of one position\<close>

lemma find_snd_const:
  "\<forall>r\<in>set rs. snd r = f \<Longrightarrow>
   (case find Q rs of None \<Rightarrow> None | Some r \<Rightarrow> Some (snd r)) =
   (if \<exists>r\<in>set rs. Q r then Some f else None)"
  by (induction rs) auto

lemma rev_highlighting_rules:
  "rev highlighting_rules =
     (comment_pattern, comment_format) # (quote_pattern (CHR 0x27), string_format) #
     (quote_pattern (CHR 0x22), string_format) #
     rev (map (\<lambda>word. (keyword_pattern word, keyword_format)) cobol_keywords)"
  by (simp add: highlighting_rules_def string_patterns_def)

lemma highlight_char:
  assumes "i < length s"
  shows "highlightBlock s ! i =
     (if covered i (globalMatch comment_pattern s) then Some comment_format
      else if covered i (globalMatch (quote_pattern (CHR 0x27)) s) \<or>
              covered i (globalMatch (quote_pattern (CHR 0x22)) s) then Some string_format
      else if \<exists>w\<in>set cobol_keywords. covered i (globalMatch (keyword_pattern w) s)
           then Some keyword_format
      else None)"
proof -
  let ?kw = "rev (map (\<lambda>word. (keyword_pattern word, keyword_format)) cobol_keywords)"
  have "(case find (\<lambda>r. covered i (globalMatch (fst r) s)) ?kw of
           None \<Rightarrow> None | Some r \<Rightarrow> Some (snd r)) =
        (if \<exists>r\<in>set ?kw. covered i (globalMatch (fst r) s) then Some keyword_format else None)"
    by (rule find_snd_const) auto
  also have "(\<exists>r\<in>set ?kw. covered i (globalMatch (fst r) s)) \<longleftrightarrow>
             (\<exists>w\<in>set cobol_keywords. covered i (globalMatch (keyword_pattern w) s))"
    by auto
  finally show ?thesis
    using assms by (simp add: nth_highlightBlock rev_highlighting_rules)
qed

text \<open>
  Claim C1. The rules are applied in the order of \<open>highlighting_rules\<close>: the keywords, then
  the two string literals, then the comment. The format of a position is the format of
  the last rule in that order with a match over the position: a comment match wins over
  everything, and a position in a match of a string rule and in no comment match has the
  string format, whether a keyword rule matches there or not.
\<close>

theorem last_rule_wins:
  "map snd highlighting_rules =
     replicate (length cobol_keywords) keyword_format @
     [string_format, string_format, comment_format] \<and>
   (i < length s \<longrightarrow>
      highlightBlock s ! i =
        (case find (\<lambda>r. covered i (globalMatch (fst r) s)) (rev highlighting_rules) of
           None \<Rightarrow> None
         | Some r \<Rightarrow> Some (snd r))) \<and>
   (i < length s \<and> covered i (globalMatch comment_pattern s) \<longrightarrow>
      highlightBlock s ! i = Some comment_format) \<and>
   (i < length s \<and> (q = CHR 0x22 \<or> q = CHR 0x27) \<and>
    covered i (globalMatch (quote_pattern q) s) \<and>
    \<not> covered i (globalMatch comment_pattern s) \<longrightarrow>
      highlightBlock s ! i = Some string_format)"
proof (intro conjI impI)
  show "map snd highlighting_rules =
     replicate (length cobol_keywords) keyword_format @
     [string_format, string_format, comment_format]"
    by (simp add: highlighting_rules_def string_patterns_def comp_def map_replicate_const)
next
  assume "i < length s"
  then show "highlightBlock s ! i =
        (case find (\<lambda>r. covered i (globalMatch (fst r) s)) (rev highlighting_rules) of
           None \<Rightarrow> None
         | Some r \<Rightarrow> Some (snd r))"
    by (rule nth_highlightBlock)
next
  assume "i < length s \<and> covered i (globalMatch comment_pattern s)"
  then show "highlightBlock s ! i = Some comment_format"
    by (simp add: highlight_char)
next
  assume "i < length s \<and> (q = CHR 0x22 \<or> q = CHR 0x27) \<and>
    covered i (globalMatch (quote_pattern q) s) \<and>
    \<not> covered i (globalMatch comment_pattern s)"
  then show "highlightBlock s ! i = Some string_format"
    by (auto simp add: highlight_char)
qed

text \<open>
  In \<^verbatim>\<open>MOVE "IF" TO X\<close> the rule of the keyword IF matches at position 6, inside the string
  literal, and the position has the string format.
\<close>

theorem last_rule_wins_witness:
  "6 < length example_line \<and>
   covered 6 (globalMatch (keyword_pattern ''IF'') example_line) \<and>
   covered 6 (globalMatch (quote_pattern (CHR 0x22)) example_line) \<and>
   \<not> covered 6 (globalMatch comment_pattern example_line) \<and>
   highlightBlock example_line ! 6 = Some string_format"
proof -
  have h: "6 < length example_line"
    "covered 6 (globalMatch (keyword_pattern ''IF'') example_line)"
    "covered 6 (globalMatch (quote_pattern (CHR 0x22)) example_line)"
    "\<not> covered 6 (globalMatch comment_pattern example_line)"
    by code_simp+
  from last_rule_wins [of 6 example_line "CHR 0x22"]
  have "6 < length example_line \<and> (CHR 0x22 = CHR 0x22 \<or> CHR 0x22 = CHR 0x27) \<and>
        covered 6 (globalMatch (quote_pattern (CHR 0x22)) example_line) \<and>
        \<not> covered 6 (globalMatch comment_pattern example_line) \<longrightarrow>
        highlightBlock example_line ! 6 = Some string_format"
    by blast
  with h show ?thesis
    by blast
qed

subsection \<open>Comment lines\<close>

lemma comment_line_iff:
  "comment_line s \<longleftrightarrow> (\<exists>ws rest. s = ws @ ''*>'' @ rest \<and> list_all is_space ws)"
proof
  assume c: "comment_line s"
  then have "length (take 2 (dropWhile is_space s)) = 2"
    by (simp only: comment_line_def) simp
  then have "2 \<le> length (dropWhile is_space s)"
    by simp
  then have "dropWhile is_space s = take 2 (dropWhile is_space s) @ drop 2 (dropWhile is_space s)"
    by simp
  with c have "dropWhile is_space s = ''*>'' @ drop 2 (dropWhile is_space s)"
    by (simp only: comment_line_def)
  then have "s = takeWhile is_space s @ ''*>'' @ drop 2 (dropWhile is_space s)"
    by (metis takeWhile_dropWhile_id)
  moreover have "list_all is_space (takeWhile is_space s)"
    by (auto simp add: list_all_iff dest: set_takeWhileD)
  ultimately show "\<exists>ws rest. s = ws @ ''*>'' @ rest \<and> list_all is_space ws"
    by blast
next
  assume "\<exists>ws rest. s = ws @ ''*>'' @ rest \<and> list_all is_space ws"
  then obtain ws rest where s: "s = ws @ ''*>'' @ rest" and ws: "list_all is_space ws"
    by blast
  from ws have "dropWhile is_space (ws @ ''*>'' @ rest) = dropWhile is_space (''*>'' @ rest)"
    by (intro dropWhile_append2) (simp add: list_all_iff)
  then show "comment_line s"
    by (simp add: s comment_line_def is_space_def)
qed

lemma no_comment_matches:
  assumes "\<not> comment_line s"
  shows "globalMatch comment_pattern s = []"
proof (cases "globalMatch comment_pattern s")
  case Nil
  then show ?thesis .
next
  case (Cons m ms)
  then have "(fst m, snd m) \<in> set (globalMatch comment_pattern s)" by simp
  from comment_matches_sound [OF this] assms show ?thesis by simp
qed

text \<open>
  Claim C2. On a line where \<^verbatim>\<open>*>\<close> is the first token that is not whitespace, the comment
  rule matches the whole line, from position 0, and every position of the line, so every
  position from the marker on, has the comment format. On a line whose first token that
  is not whitespace is not \<^verbatim>\<open>*>\<close>, so where a marker comes only after some other
  character that is not whitespace, the comment rule has no match and no position has the
  comment format.
\<close>

theorem comment_only_at_line_start:
  assumes "is_line s"
  shows "(comment_line s \<longrightarrow>
            (0, length s) \<in> set (globalMatch comment_pattern s) \<and>
            (\<forall>i<length s. highlightBlock s ! i = Some comment_format)) \<and>
         (\<not> comment_line s \<longrightarrow>
            globalMatch comment_pattern s = [] \<and>
            (\<forall>i<length s. highlightBlock s ! i \<noteq> Some comment_format))"
  using assms
  by (simp add: highlight_char covered_comment comment_matches_complete no_comment_matches)

theorem comment_only_at_line_start_witness:
  "is_line ''  *> MOVE A TO B'' \<and> comment_line ''  *> MOVE A TO B'' \<and>
   (0, 16) \<in> set (globalMatch comment_pattern ''  *> MOVE A TO B'') \<and>
   highlightBlock ''  *> MOVE A TO B'' ! 2 = Some comment_format \<and>
   highlightBlock ''  *> MOVE A TO B'' ! 15 = Some comment_format \<and>
   is_line ''MOVE A TO B *> note'' \<and> \<not> comment_line ''MOVE A TO B *> note'' \<and>
   globalMatch comment_pattern ''MOVE A TO B *> note'' = [] \<and>
   highlightBlock ''MOVE A TO B *> note'' ! 12 \<noteq> Some comment_format"
proof -
  have h: "is_line ''  *> MOVE A TO B''" "comment_line ''  *> MOVE A TO B''"
    "is_line ''MOVE A TO B *> note''" "\<not> comment_line ''MOVE A TO B *> note''"
    by code_simp+
  let ?a = "''  *> MOVE A TO B''" and ?b = "''MOVE A TO B *> note''"
  from comment_only_at_line_start [OF h(1)] h(2)
  have a: "(0, length ?a) \<in> set (globalMatch comment_pattern ?a)"
    "\<forall>i<length ?a. highlightBlock ?a ! i = Some comment_format"
    by blast+
  from comment_only_at_line_start [OF h(3)] h(4)
  have b: "globalMatch comment_pattern ?b = []"
    "\<forall>i<length ?b. highlightBlock ?b ! i \<noteq> Some comment_format"
    by blast+
  have l: "length ?a = 16" "2 < length ?a" "15 < length ?a" "12 < length ?b"
    by simp_all
  from a(1) l(1) have a1: "(0, 16) \<in> set (globalMatch comment_pattern ?a)"
    by (simp only:)
  from a(2) l(2,3) b(2) l(4) have
    "highlightBlock ?a ! 2 = Some comment_format"
    "highlightBlock ?a ! 15 = Some comment_format"
    "highlightBlock ?b ! 12 \<noteq> Some comment_format"
    by blast+
  with h a1 b(1) show ?thesis by blast
qed

subsection \<open>Keywords\<close>

lemma occurs_at_nth:
  assumes "occurs_at w s i" and "t < length w"
  shows "s ! (i + t) = w ! t"
proof -
  from assms(1) have e: "take (length w) (drop i s) = w" and le: "i + length w \<le> length s"
    by (simp_all add: occurs_at_def)
  have "take (length w) (drop i s) ! t = s ! (i + t)"
    using assms(2) le by simp
  then show ?thesis by (simp only: e)
qed

lemma next_char_drop: "m < length s \<Longrightarrow> next_char (drop m s) = Some (s ! m)"
  by (simp add: Cons_nth_drop_Suc [symmetric])

lemma prev_at_pos: "0 < m \<Longrightarrow> prev_at s m = Some (s ! (m - 1))"
  by (simp add: prev_at_def pv_def)

lemma keyword_match:
  assumes "w \<in> set cobol_keywords" and "(st, l) \<in> set (globalMatch (keyword_pattern w) s)"
  shows "l = length w \<and> whole_word_at w s st"
proof -
  from globalMatch_sound [OF assms(2)]
  have "st \<le> length s" "match_here (keyword_pattern w) (prev_at s st) (drop st s) = Some l"
    by simp_all
  with keyword_match_iff [OF keyword_okD [OF assms(1)]] show ?thesis
    by blast
qed

lemma no_self_overlapD:
  assumes "no_self_overlap w" and "0 < d" and "d < length w"
  shows "is_word (w ! (d - 1)) \<or> w ! d \<noteq> w ! 0"
proof -
  from assms(2,3) have "d \<in> set [1..<length w]" by simp
  with assms(1) show ?thesis
    unfolding no_self_overlap_def list_all_iff by blast
qed

lemma whole_words_apart:
  assumes ok: "keyword_ok w" and a: "whole_word_at w s j" and b: "whole_word_at w s i"
    and ji: "j < i"
  shows "j + length w \<le> i"
proof (rule ccontr)
  assume "\<not> j + length w \<le> i"
  with ji have d: "0 < i - j" "i - j < length w" by arith+
  from ok have w: "w \<noteq> []" "no_self_overlap w" by (simp_all add: keyword_ok_def)
  from a b have oa: "occurs_at w s j" and ob: "occurs_at w s i"
    by (simp_all add: whole_word_at_def)
  from d have d1: "i - j - 1 < length w" by arith
  from occurs_at_nth [OF oa d1] ji have p: "s ! (i - 1) = w ! (i - j - 1)"
    by (simp add: Suc_diff_Suc)
  from occurs_at_nth [OF oa d(2)] ji have q: "s ! i = w ! (i - j)" by simp
  from w(1) occurs_at_nth [OF ob, of 0] have r: "s ! i = w ! 0" by simp
  from b ji have "\<not> is_word (s ! (i - 1))"
    by (simp add: whole_word_at_def prev_at_pos)
  with p have "\<not> is_word (w ! (i - j - 1))" by simp
  moreover from q r have "w ! (i - j) = w ! 0" by simp
  ultimately show False
    using no_self_overlapD [OF w(2) d] by simp
qed

lemma keyword_found:
  assumes "w \<in> set cobol_keywords" and "whole_word_at w s i"
  shows "(i, length w) \<in> set (globalMatch (keyword_pattern w) s)"
proof (rule globalMatch_complete)
  note ok = keyword_okD [OF assms(1)]
  from assms(2) show i: "i \<le> length s"
    by (simp add: whole_word_at_def occurs_at_def)
  from assms(2) show "match_here (keyword_pattern w) (prev_at s i) (drop i s) = Some (length w)"
    by (simp add: keyword_match_iff [OF ok i])
  fix j m
  assume j: "j < i" and m: "match_here (keyword_pattern w) (prev_at s j) (drop j s) = Some m"
  from j i have "j \<le> length s" by simp
  from m keyword_match_iff [OF ok this] have mw: "m = length w" "whole_word_at w s j"
    by blast+
  from ok have "0 < length w" by (simp add: keyword_ok_def)
  with mw whole_words_apart [OF ok mw(2) assms(2) j] show "0 < m \<and> j + m \<le> i"
    by simp
qed

lemma keyword_format_cover:
  assumes "i < length s" and "highlightBlock s ! i = Some keyword_format"
  shows "\<exists>w\<in>set cobol_keywords. \<exists>st. whole_word_at w s st \<and> st \<le> i \<and> i < st + length w"
proof -
  from assms have "\<exists>w\<in>set cobol_keywords. covered i (globalMatch (keyword_pattern w) s)"
    by (simp add: highlight_char split: if_splits)
  then obtain w st l where w: "w \<in> set cobol_keywords"
    and m: "(st, l) \<in> set (globalMatch (keyword_pattern w) s)" "st \<le> i" "i < st + l"
    unfolding covered_iff by blast
  from keyword_match [OF w m(1)] m(2,3) w show ?thesis by blast
qed

lemma keyword_chars:
  "w \<in> set cobol_keywords \<Longrightarrow> t < length w \<Longrightarrow> is_upper (w ! t) \<or> w ! t = CHR ''-''"
  using keyword_okD [of w] by (auto simp add: keyword_ok_def list_all_length)

lemma hyphen_not_word: "\<not> is_word CHR ''-''"
  by (simp add: is_word_def)

subsection \<open>Case\<close>

lemma mixed_case_run_not_keyword:
  assumes u: "occurs_at u s i" and word: "list_all is_word u" and low: "\<not> list_all is_upper u"
  shows "\<forall>j. i \<le> j \<and> j < i + length u \<longrightarrow> highlightBlock s ! j \<noteq> Some keyword_format"
proof (intro allI impI notI)
  fix j
  assume j: "i \<le> j \<and> j < i + length u" and f: "highlightBlock s ! j = Some keyword_format"
  from u have le: "i + length u \<le> length s" by (simp add: occurs_at_def)
  with j have "j < length s" by simp
  from keyword_format_cover [OF this f] obtain w st where w: "w \<in> set cobol_keywords"
    and ww: "whole_word_at w s st" and st: "st \<le> j" "j < st + length w"
    by blast
  have inword: "is_word (s ! m)" if "i \<le> m" "m < i + length u" for m
  proof -
    from that have "m - i < length u" by arith
    with word have "is_word (u ! (m - i))" by (simp add: list_all_length)
    with occurs_at_nth [OF u \<open>m - i < length u\<close>] that show ?thesis by simp
  qed
  have a: "st \<le> i"
  proof (rule ccontr)
    assume "\<not> st \<le> i"
    with st j have "0 < st" "i \<le> st - 1" "st - 1 < i + length u" by arith+
    with ww inword [of "st - 1"] show False
      by (simp add: whole_word_at_def prev_at_pos)
  qed
  have b: "i + length u \<le> st + length w"
  proof (rule ccontr)
    assume "\<not> i + length u \<le> st + length w"
    with st j le have "i \<le> st + length w" "st + length w < i + length u" "st + length w < length s"
      by arith+
    with ww inword [of "st + length w"] show False
      by (simp add: whole_word_at_def next_char_drop)
  qed
  from low obtain k where k: "k < length u" "\<not> is_upper (u ! k)"
    by (auto simp add: list_all_length)
  from a b k(1) have r: "i + k - st < length w" "st + (i + k - st) = i + k" by arith+
  from ww have "occurs_at w s st" by (simp add: whole_word_at_def)
  from occurs_at_nth [OF this r(1)] r(2) occurs_at_nth [OF u k(1)]
  have "w ! (i + k - st) = u ! k" by simp
  with keyword_chars [OF w r(1)] k(2) have "u ! k = CHR ''-''" by auto
  moreover from word k(1) have "is_word (u ! k)" by (simp add: list_all_length)
  ultimately show False using hyphen_not_word by simp
qed

lemma to_upper_neq: "to_upper c \<noteq> c \<Longrightarrow> is_lower c"
proof -
  assume a: "to_upper c \<noteq> c"
  then obtain d where
    "map_of (zip ''abcdefghijklmnopqrstuvwxyz'' ''ABCDEFGHIJKLMNOPQRSTUVWXYZ'') c = Some d"
    by (auto simp add: to_upper_def split: option.splits)
  then have "(c, d) \<in> set (zip ''abcdefghijklmnopqrstuvwxyz'' ''ABCDEFGHIJKLMNOPQRSTUVWXYZ'')"
    by (rule map_of_SomeD)
  then have "c \<in> set ''abcdefghijklmnopqrstuvwxyz''"
    by (rule set_zip_leftD)
  then show ?thesis by (simp only: is_lower_def)
qed

lemma is_lower_not_upper: "is_lower c \<Longrightarrow> \<not> is_upper c \<and> c \<noteq> CHR ''-''"
  by (auto simp add: is_lower_def is_upper_def)

lemma case_variant_length: "case_variant u w \<Longrightarrow> length u = length w"
  by (auto simp add: case_variant_def)

lemma case_variant_lower:
  assumes "case_variant u w" and "t < length u" and "u ! t \<noteq> w ! t"
  shows "is_lower (u ! t)"
proof -
  from assms(1,2) have "w ! t = to_upper (u ! t)"
    by (auto simp add: case_variant_def)
  with assms(3) show ?thesis by (intro to_upper_neq) simp
qed

lemma case_variant_differs:
  assumes "case_variant u w"
  shows "\<exists>t<length u. u ! t \<noteq> w ! t"
proof (rule ccontr)
  assume "\<not> (\<exists>t<length u. u ! t \<noteq> w ! t)"
  with case_variant_length [OF assms] have "u = w"
    by (intro nth_equalityI) auto
  with assms show False by (simp add: case_variant_def)
qed

lemma occurs_at_same:
  "occurs_at u s i \<Longrightarrow> occurs_at w s i \<Longrightarrow> length u = length w \<Longrightarrow> u = w"
  by (simp add: occurs_at_def)

lemma keyword_word_over_iff:
  "keyword_word_over s j \<longleftrightarrow>
   (\<exists>v\<in>set cobol_keywords. \<exists>st. whole_word_at v s st \<and> st \<le> j \<and> j < st + length v)"
proof -
  have "st \<in> set [0..<Suc j] \<longleftrightarrow> st \<le> j" for st
    by (simp only: set_upt atLeastLessThan_iff) arith
  then show ?thesis
    unfolding keyword_word_over_def list_ex_iff by blast
qed

lemma covered_keyword_iff:
  assumes "w \<in> set cobol_keywords"
  shows "covered j (globalMatch (keyword_pattern w) s) \<longleftrightarrow>
         (\<exists>st. whole_word_at w s st \<and> st \<le> j \<and> j < st + length w)"
proof
  assume "covered j (globalMatch (keyword_pattern w) s)"
  then obtain st l where m: "(st, l) \<in> set (globalMatch (keyword_pattern w) s)" "st \<le> j" "j < st + l"
    unfolding covered_iff by blast
  from keyword_match [OF assms m(1)] m(2,3)
  show "\<exists>st. whole_word_at w s st \<and> st \<le> j \<and> j < st + length w" by blast
next
  assume "\<exists>st. whole_word_at w s st \<and> st \<le> j \<and> j < st + length w"
  then obtain st where st: "whole_word_at w s st" "st \<le> j" "j < st + length w" by blast
  from keyword_found [OF assms st(1)] st(2,3)
  show "covered j (globalMatch (keyword_pattern w) s)"
    unfolding covered_iff by blast
qed

lemma keyword_format_iff:
  assumes "j < length s"
  shows "highlightBlock s ! j = Some keyword_format \<longleftrightarrow>
         keyword_word_over s j \<and>
         \<not> covered j (globalMatch (quote_pattern (CHR 0x22)) s) \<and>
         \<not> covered j (globalMatch (quote_pattern (CHR 0x27)) s) \<and>
         \<not> covered j (globalMatch comment_pattern s)"
proof -
  have "(\<exists>w\<in>set cobol_keywords. covered j (globalMatch (keyword_pattern w) s)) \<longleftrightarrow>
        keyword_word_over s j"
    unfolding keyword_word_over_iff using covered_keyword_iff by blast
  with assms show ?thesis
    by (auto simp add: highlight_char)
qed

text \<open>
  Claim C10, as the claim states it, fails for a keyword with a hyphen: \<^verbatim>\<open>End-IF\<close> is the
  declared keyword END-IF in mixed case, no rule matches the word, and yet its last two
  positions have the keyword format, since IF is a declared keyword that stands there as a
  whole word in upper case, after the hyphen.
\<close>

theorem mixed_case_keyword_part_counterexample:
  "''END-IF'' \<in> set cobol_keywords \<and> case_variant ''End-IF'' ''END-IF'' \<and>
   occurs_at ''End-IF'' ''End-IF'' 0 \<and>
   globalMatch (keyword_pattern ''END-IF'') ''End-IF'' = [] \<and>
   highlightBlock ''End-IF'' ! 4 = Some keyword_format \<and>
   highlightBlock ''End-IF'' ! 5 = Some keyword_format"
  by code_simp

text \<open>
  Claim C10, amended. Keyword matching is case-sensitive. A run of word characters that is
  not all in upper case, such as \<^verbatim>\<open>move\<close> or \<^verbatim>\<open>Move\<close>, has the keyword format at none of
  its positions. The keywords hold upper-case letters and hyphens only, and a match of a
  keyword rule is letter for letter the keyword. Where a declared keyword \<open>w\<close> stands in
  lower or mixed case, as \<open>v\<close>: the rule of \<open>w\<close> has no match there, no keyword rule has a
  match of exactly that word, no position where \<open>v\<close> differs from \<open>w\<close> has the keyword
  format, and a position of \<open>v\<close> has the keyword format only if a declared keyword stands
  over it as a whole word, in upper case (IF in \<^verbatim>\<open>End-IF\<close>).
\<close>

theorem keywords_are_case_sensitive:
  "(occurs_at u s i \<and> list_all is_word u \<and> \<not> list_all is_upper u \<longrightarrow>
      (\<forall>j. i \<le> j \<and> j < i + length u \<longrightarrow> highlightBlock s ! j \<noteq> Some keyword_format)) \<and>
   (\<forall>w\<in>set cobol_keywords. list_all (\<lambda>c. is_upper c \<or> c = CHR ''-'') w \<and>
      (\<forall>st l. (st, l) \<in> set (globalMatch (keyword_pattern w) s) \<longrightarrow>
               take l (drop st s) = w)) \<and>
   (w \<in> set cobol_keywords \<and> case_variant v w \<and> occurs_at v s i \<longrightarrow>
      (\<forall>l. (i, l) \<notin> set (globalMatch (keyword_pattern w) s)) \<and>
      (\<forall>x\<in>set cobol_keywords. (i, length v) \<notin> set (globalMatch (keyword_pattern x) s)) \<and>
      (\<forall>j. i \<le> j \<and> j < i + length v \<longrightarrow>
         (v ! (j - i) \<noteq> w ! (j - i) \<longrightarrow> highlightBlock s ! j \<noteq> Some keyword_format) \<and>
         (highlightBlock s ! j = Some keyword_format \<longrightarrow> keyword_word_over s j)))"
proof (intro conjI)
  show "occurs_at u s i \<and> list_all is_word u \<and> \<not> list_all is_upper u \<longrightarrow>
      (\<forall>j. i \<le> j \<and> j < i + length u \<longrightarrow> highlightBlock s ! j \<noteq> Some keyword_format)"
    using mixed_case_run_not_keyword [of u s i] by blast
next
  show "\<forall>w\<in>set cobol_keywords. list_all (\<lambda>c. is_upper c \<or> c = CHR ''-'') w \<and>
      (\<forall>st l. (st, l) \<in> set (globalMatch (keyword_pattern w) s) \<longrightarrow>
               take l (drop st s) = w)"
  proof (intro ballI conjI allI impI)
    fix w assume "w \<in> set cobol_keywords"
    then show "list_all (\<lambda>c. is_upper c \<or> c = CHR ''-'') w"
      using keyword_okD [of w] by (simp add: keyword_ok_def)
  next
    fix w st l
    assume "w \<in> set cobol_keywords" "(st, l) \<in> set (globalMatch (keyword_pattern w) s)"
    from keyword_match [OF this] show "take l (drop st s) = w"
      by (simp add: whole_word_at_def occurs_at_def)
  qed
next
  show "w \<in> set cobol_keywords \<and> case_variant v w \<and> occurs_at v s i \<longrightarrow>
      (\<forall>l. (i, l) \<notin> set (globalMatch (keyword_pattern w) s)) \<and>
      (\<forall>x\<in>set cobol_keywords. (i, length v) \<notin> set (globalMatch (keyword_pattern x) s)) \<and>
      (\<forall>j. i \<le> j \<and> j < i + length v \<longrightarrow>
         (v ! (j - i) \<noteq> w ! (j - i) \<longrightarrow> highlightBlock s ! j \<noteq> Some keyword_format) \<and>
         (highlightBlock s ! j = Some keyword_format \<longrightarrow> keyword_word_over s j))"
  proof
    assume a: "w \<in> set cobol_keywords \<and> case_variant v w \<and> occurs_at v s i"
    then have w: "w \<in> set cobol_keywords" and cv: "case_variant v w" and v: "occurs_at v s i"
      by simp_all
    note len = case_variant_length [OF cv]
    from cv have neq: "v \<noteq> w" by (simp add: case_variant_def)
    from case_variant_differs [OF cv] obtain t where t: "t < length v" "v ! t \<noteq> w ! t"
      by blast
    from case_variant_lower [OF cv t] have low: "is_lower (v ! t)" .
    have 1: "\<forall>l. (i, l) \<notin> set (globalMatch (keyword_pattern w) s)"
    proof (intro allI notI)
      fix l assume "(i, l) \<in> set (globalMatch (keyword_pattern w) s)"
      from keyword_match [OF w this] have "occurs_at w s i"
        by (simp add: whole_word_at_def)
      from occurs_at_same [OF v this len] neq show False by simp
    qed
    have 2: "\<forall>x\<in>set cobol_keywords. (i, length v) \<notin> set (globalMatch (keyword_pattern x) s)"
    proof (intro ballI notI)
      fix x assume x: "x \<in> set cobol_keywords"
        and "(i, length v) \<in> set (globalMatch (keyword_pattern x) s)"
      from keyword_match [OF this] have "length v = length x" "occurs_at x s i"
        by (simp_all add: whole_word_at_def)
      from occurs_at_same [OF v this(2,1)] have "v = x" .
      with keyword_chars [OF x, of t] t(1) have "is_upper (v ! t) \<or> v ! t = CHR ''-''"
        by simp
      with is_lower_not_upper [OF low] show False by simp
    qed
    have 3: "\<forall>j. i \<le> j \<and> j < i + length v \<longrightarrow>
         (v ! (j - i) \<noteq> w ! (j - i) \<longrightarrow> highlightBlock s ! j \<noteq> Some keyword_format) \<and>
         (highlightBlock s ! j = Some keyword_format \<longrightarrow> keyword_word_over s j)"
    proof (intro allI impI conjI notI)
      fix j
      assume j: "i \<le> j \<and> j < i + length v" and d: "v ! (j - i) \<noteq> w ! (j - i)"
        and f: "highlightBlock s ! j = Some keyword_format"
      from j have ji: "j - i < length v" "i + (j - i) = j" by arith+
      from v j have "j < length s" by (simp add: occurs_at_def)
      from keyword_format_cover [OF this f] obtain x st where x: "x \<in> set cobol_keywords"
        and ww: "whole_word_at x s st" and st: "st \<le> j" "j < st + length x"
        by blast
      from st have js: "j - st < length x" "st + (j - st) = j" by arith+
      from ww have "occurs_at x s st" by (simp add: whole_word_at_def)
      from occurs_at_nth [OF this js(1)] js(2) occurs_at_nth [OF v ji(1)] ji(2)
      have "x ! (j - st) = v ! (j - i)" by simp
      with keyword_chars [OF x js(1)] have "is_upper (v ! (j - i)) \<or> v ! (j - i) = CHR ''-''"
        by simp
      with is_lower_not_upper [OF case_variant_lower [OF cv ji(1) d]] show False by simp
    next
      fix j
      assume j: "i \<le> j \<and> j < i + length v" and f: "highlightBlock s ! j = Some keyword_format"
      from v j have "j < length s" by (simp add: occurs_at_def)
      from keyword_format_cover [OF this f] show "keyword_word_over s j"
        unfolding keyword_word_over_iff by blast
    qed
    from 1 2 3 show "(\<forall>l. (i, l) \<notin> set (globalMatch (keyword_pattern w) s)) \<and>
      (\<forall>x\<in>set cobol_keywords. (i, length v) \<notin> set (globalMatch (keyword_pattern x) s)) \<and>
      (\<forall>j. i \<le> j \<and> j < i + length v \<longrightarrow>
         (v ! (j - i) \<noteq> w ! (j - i) \<longrightarrow> highlightBlock s ! j \<noteq> Some keyword_format) \<and>
         (highlightBlock s ! j = Some keyword_format \<longrightarrow> keyword_word_over s j))"
      by blast
  qed
qed

theorem keywords_are_case_sensitive_witness:
  "occurs_at ''Move'' ''Move A TO move'' 0 \<and> list_all is_word ''Move'' \<and>
   \<not> list_all is_upper ''Move'' \<and>
   highlightBlock ''Move A TO move'' ! 0 \<noteq> Some keyword_format \<and>
   highlightBlock ''Move A TO move'' ! 3 \<noteq> Some keyword_format \<and>
   ''MOVE'' \<in> set cobol_keywords \<and> case_variant ''move'' ''MOVE'' \<and>
   occurs_at ''move'' ''Move A TO move'' 10 \<and>
   (\<forall>l. (10, l) \<notin> set (globalMatch (keyword_pattern ''MOVE'') ''Move A TO move'')) \<and>
   highlightBlock ''Move A TO move'' ! 10 \<noteq> Some keyword_format \<and>
   ''END-IF'' \<in> set cobol_keywords \<and> case_variant ''End-IF'' ''END-IF'' \<and>
   occurs_at ''End-IF'' ''End-IF'' 0 \<and>
   (\<forall>l. (0, l) \<notin> set (globalMatch (keyword_pattern ''END-IF'') ''End-IF'')) \<and>
   highlightBlock ''End-IF'' ! 1 \<noteq> Some keyword_format \<and>
   highlightBlock ''End-IF'' ! 4 = Some keyword_format \<and>
   keyword_word_over ''End-IF'' 4"
proof -
  let ?s = "''Move A TO move''" and ?e = "''End-IF''"
  have h1: "occurs_at ''Move'' ?s 0" by code_simp
  have h2: "list_all is_word ''Move''" by code_simp
  have h3: "\<not> list_all is_upper ''Move''" by code_simp
  have h4: "''MOVE'' \<in> set cobol_keywords" by code_simp
  have h5: "case_variant ''move'' ''MOVE''" by code_simp
  have h6: "occurs_at ''move'' ?s 10" by code_simp
  have h7: "''END-IF'' \<in> set cobol_keywords" by code_simp
  have h8: "case_variant ''End-IF'' ''END-IF''" by code_simp
  have h9: "occurs_at ''End-IF'' ?e 0" by code_simp
  have h10: "highlightBlock ?e ! 4 = Some keyword_format" by code_simp
  have n1: "(0::nat) \<le> 0 \<and> (0::nat) < 0 + length ''Move''" by simp
  have n2: "(0::nat) \<le> 3 \<and> (3::nat) < 0 + length ''Move''" by simp
  have n3: "(10::nat) \<le> 10 \<and> (10::nat) < 10 + length ''move''" by simp
  have n4: "''move'' ! (10 - 10) \<noteq> ''MOVE'' ! (10 - 10)" by simp
  have n5: "(0::nat) \<le> 1 \<and> (1::nat) < 0 + length ''End-IF''" by simp
  have n6: "''End-IF'' ! (1 - 0) \<noteq> ''END-IF'' ! (1 - 0)" by simp
  have n7: "(0::nat) \<le> 4 \<and> (4::nat) < 0 + length ''End-IF''" by simp
  have p1: "occurs_at ''Move'' ?s 0 \<and> list_all is_word ''Move'' \<and> \<not> list_all is_upper ''Move''"
    using h1 h2 h3 by (intro conjI)
  have p2: "''MOVE'' \<in> set cobol_keywords \<and> case_variant ''move'' ''MOVE'' \<and> occurs_at ''move'' ?s 10"
    using h4 h5 h6 by (intro conjI)
  have p3: "''END-IF'' \<in> set cobol_keywords \<and> case_variant ''End-IF'' ''END-IF'' \<and>
    occurs_at ''End-IF'' ?e 0"
    using h7 h8 h9 by (intro conjI)
  note k1 = keywords_are_case_sensitive [of "''Move''" ?s 0 "''MOVE''" "''move''"]
  note k2 = keywords_are_case_sensitive [of "''Move''" ?s 10 "''MOVE''" "''move''"]
  note k3 = keywords_are_case_sensitive [of "''Move''" ?e 0 "''END-IF''" "''End-IF''"]
  note a = k1 [THEN conjunct1, THEN mp, OF p1]
  note a0 = a [THEN spec, of 0, THEN mp, OF n1]
  note a3 = a [THEN spec, of 3, THEN mp, OF n2]
  note b = k2 [THEN conjunct2, THEN conjunct2, THEN mp, OF p2]
  note b1 = b [THEN conjunct1]
  note b3 = b [THEN conjunct2, THEN conjunct2, THEN spec, of 10, THEN mp, OF n3]
  note b10 = b3 [THEN conjunct1, THEN mp, OF n4]
  note c = k3 [THEN conjunct2, THEN conjunct2, THEN mp, OF p3]
  note c1 = c [THEN conjunct1]
  note c3 = c [THEN conjunct2, THEN conjunct2, THEN spec, of 1, THEN mp, OF n5]
  note c31 = c3 [THEN conjunct1, THEN mp, OF n6]
  note c4 = c [THEN conjunct2, THEN conjunct2, THEN spec, of 4, THEN mp, OF n7]
  note c44 = c4 [THEN conjunct2, THEN mp, OF h10]
  show ?thesis
    using h1 h2 h3 a0 a3 h4 h5 h6 b1 b10 h7 h8 h9 c1 c31 h10 c44
    by (intro conjI)
qed

subsection \<open>Unterminated string literals\<close>

lemma drop_eq_ConsD:
  assumes "drop i s = x # xs"
  shows "i < length s \<and> s ! i = x \<and> xs = drop (Suc i) s"
proof -
  from assms have i: "i < length s"
    by (cases "i < length s") auto
  then have "s ! i # drop (Suc i) s = drop i s"
    by (rule Cons_nth_drop_Suc)
  with assms i show ?thesis by simp
qed

lemma quote_match_shape:
  assumes "(st, l) \<in> set (globalMatch (quote_pattern q) s)"
  shows "\<exists>k. st < length s \<and> s ! st = q \<and> closing q (drop (Suc st) s) = Some k \<and> l = k + 2"
proof -
  from globalMatch_sound [OF assms]
  have m: "match_here (quote_pattern q) (prev_at s st) (drop st s) = Some l" by simp
  then obtain x xs where d: "drop st s = x # xs"
    by (cases "drop st s") (simp_all add: match_here_quote)
  with m have x: "x = q" and "map_option (\<lambda>k. k + 2) (closing q xs) = Some l"
    by (simp_all add: match_here_quote split: if_splits)
  then obtain k where k: "closing q xs = Some k" "l = k + 2"
    by auto
  from drop_eq_ConsD [OF d] x k show ?thesis by auto
qed

text \<open>
  Claim C4. The string rules are \<^verbatim>\<open>".*?"\<close> and \<^verbatim>\<open>'.*?'\<close>. Every match of the rule of a
  quote character \<open>q\<close> starts at a \<open>q\<close>, ends at a \<open>q\<close> and holds no \<open>q\<close> in between: it
  runs to the next \<open>q\<close> and no further. A \<open>q\<close> with no \<open>q\<close> after it starts no match.
\<close>

theorem string_literal_needs_closing_quote:
  "string_patterns = [quote_pattern (CHR 0x22), quote_pattern (CHR 0x27)] \<and>
   ((st, l) \<in> set (globalMatch (quote_pattern q) s) \<longrightarrow>
      2 \<le> l \<and> st + l \<le> length s \<and> s ! st = q \<and> s ! (st + l - 1) = q \<and>
      (\<forall>j. st < j \<and> j < st + l - 1 \<longrightarrow> s ! j \<noteq> q)) \<and>
   (i < length s \<and> s ! i = q \<and> (\<forall>j. i < j \<and> j < length s \<longrightarrow> s ! j \<noteq> q) \<longrightarrow>
      (\<forall>l. (i, l) \<notin> set (globalMatch (quote_pattern q) s)))"
proof (intro conjI)
  show "string_patterns = [quote_pattern (CHR 0x22), quote_pattern (CHR 0x27)]"
    by (rule string_patterns_def)
next
  show "(st, l) \<in> set (globalMatch (quote_pattern q) s) \<longrightarrow>
      2 \<le> l \<and> st + l \<le> length s \<and> s ! st = q \<and> s ! (st + l - 1) = q \<and>
      (\<forall>j. st < j \<and> j < st + l - 1 \<longrightarrow> s ! j \<noteq> q)"
  proof
    assume "(st, l) \<in> set (globalMatch (quote_pattern q) s)"
    from quote_match_shape [OF this] obtain k where
      st: "st < length s" "s ! st = q" and c: "closing q (drop (Suc st) s) = Some k"
      and l: "l = k + 2"
      by blast
    from closing_Some [OF c] st(1)
    have k: "Suc st + k < length s" "s ! (Suc st + k) = q" "\<forall>j<k. s ! (Suc st + j) \<noteq> q"
      by auto
    have "\<forall>j. st < j \<and> j < st + l - 1 \<longrightarrow> s ! j \<noteq> q"
    proof (intro allI impI)
      fix j assume j: "st < j \<and> j < st + l - 1"
      then have "j - Suc st < k" using l by arith
      with k(3) have "s ! (Suc st + (j - Suc st)) \<noteq> q" by blast
      with j show "s ! j \<noteq> q" by simp
    qed
    with l k st show "2 \<le> l \<and> st + l \<le> length s \<and> s ! st = q \<and> s ! (st + l - 1) = q \<and>
      (\<forall>j. st < j \<and> j < st + l - 1 \<longrightarrow> s ! j \<noteq> q)"
      by simp
  qed
next
  show "i < length s \<and> s ! i = q \<and> (\<forall>j. i < j \<and> j < length s \<longrightarrow> s ! j \<noteq> q) \<longrightarrow>
      (\<forall>l. (i, l) \<notin> set (globalMatch (quote_pattern q) s))"
  proof (intro impI allI notI)
    fix l
    assume a: "i < length s \<and> s ! i = q \<and> (\<forall>j. i < j \<and> j < length s \<longrightarrow> s ! j \<noteq> q)"
    assume "(i, l) \<in> set (globalMatch (quote_pattern q) s)"
    from quote_match_shape [OF this] obtain k where c: "closing q (drop (Suc i) s) = Some k"
      by blast
    from closing_Some [OF c] a have "Suc i + k < length s" "s ! (Suc i + k) = q"
      by auto
    with a show False by auto
  qed
qed

theorem string_literal_needs_closing_quote_witness:
  "(8, 3) \<in> set (globalMatch (quote_pattern (CHR 0x22)) unterminated_line) \<and>
   unterminated_line ! 8 = CHR 0x22 \<and> unterminated_line ! 10 = CHR 0x22 \<and>
   12 < length unterminated_line \<and> unterminated_line ! 12 = CHR 0x22 \<and>
   length unterminated_line = 14 \<and> unterminated_line ! 13 \<noteq> CHR 0x22 \<and>
   (\<forall>l. (12, l) \<notin> set (globalMatch (quote_pattern (CHR 0x22)) unterminated_line)) \<and>
   globalMatch (quote_pattern (CHR 0x22)) unterminated_line = [(8, 3)]"
proof -
  have g: "globalMatch (quote_pattern (CHR 0x22)) unterminated_line = [(8, 3)]"
    by code_simp
  have m: "(8, 3) \<in> set (globalMatch (quote_pattern (CHR 0x22)) unterminated_line)"
    by (simp add: g)
  have h: "12 < length unterminated_line" "unterminated_line ! 12 = CHR 0x22"
    by code_simp+
  have n: "\<forall>j. 12 < j \<and> j < length unterminated_line \<longrightarrow> unterminated_line ! j \<noteq> CHR 0x22"
  proof (intro allI impI)
    fix j assume "12 < j \<and> j < length unterminated_line"
    then have "j = 13" by (simp add: unterminated_line_def)
    then show "unterminated_line ! j \<noteq> CHR 0x22" by (simp add: unterminated_line_def)
  qed
  note t = string_literal_needs_closing_quote [of 8 3 "CHR 0x22" unterminated_line 12]
  from t m have "unterminated_line ! 8 = CHR 0x22 \<and> unterminated_line ! (8 + 3 - 1) = CHR 0x22"
    by blast
  moreover from t h n have "\<forall>l. (12, l) \<notin> set (globalMatch (quote_pattern (CHR 0x22)) unterminated_line)"
    by blast
  moreover have "length unterminated_line = 14" "unterminated_line ! 13 \<noteq> CHR 0x22"
    by code_simp+
  ultimately show ?thesis using m h g by simp
qed

subsection \<open>Whole words\<close>

text \<open>
  No rule matches the empty string.
\<close>

lemma rule_match_nonempty:
  assumes "r \<in> set highlighting_rules" and "match_here (fst r) prev s = Some n"
  shows "0 < n"
proof -
  from assms(1) consider w where "w \<in> set cobol_keywords" "fst r = keyword_pattern w"
    | q where "fst r = quote_pattern q" | "fst r = comment_pattern"
    by (auto simp add: highlighting_rules_def string_patterns_def)
  then show ?thesis
  proof cases
    case 1
    from keyword_okD [OF 1(1)] have "w \<noteq> []" by (simp add: keyword_ok_def)
    with assms(2) 1(2) show ?thesis
      by (auto simp add: match_here_keyword split: if_splits)
  next
    case 2
    with assms(2) show ?thesis
      by (auto simp add: match_here_quote split: list.splits if_splits)
  next
    case 3
    with assms(2) show ?thesis
      by (simp add: match_here_comment split: if_splits)
  qed
qed

text \<open>
  Claim C3, as the claim states it, fails in both halves. Where a later rule paints over
  the keyword: in \<^verbatim>\<open>MOVE "IF" TO X\<close> the keyword IF stands as a whole word at position 6,
  between two quotes, and the position has the string format. Where the longer identifier
  is a declared keyword: in \<^verbatim>\<open>UNSTRING X\<close> the letters of STRING stand at position 2, after
  a word character, the rule of STRING has no match, and the position has the keyword
  format, that of UNSTRING.
\<close>

theorem keyword_in_string_counterexample:
  "''IF'' \<in> set cobol_keywords \<and> whole_word_at ''IF'' example_line 6 \<and>
   highlightBlock example_line ! 6 = Some string_format \<and>
   highlightBlock example_line ! 6 \<noteq> Some keyword_format \<and>
   ''STRING'' \<in> set cobol_keywords \<and> occurs_at ''STRING'' ''UNSTRING X'' 2 \<and>
   word_opt (prev_at ''UNSTRING X'' 2) \<and>
   globalMatch (keyword_pattern ''STRING'') ''UNSTRING X'' = [] \<and>
   highlightBlock ''UNSTRING X'' ! 2 = Some keyword_format"
  by code_simp

text \<open>
  Claim C3, amended. For a keyword \<open>w\<close>: the rule of \<open>w\<close> matches exactly the range of every
  whole-word occurrence of \<open>w\<close>, and the positions of that range have the keyword format
  unless a match of a string rule or of the comment rule lies over them; every match of
  the rule of \<open>w\<close> is a whole-word occurrence of \<open>w\<close>; where the letters of \<open>w\<close> stand
  with a word character right before or right after them, inside a longer identifier, no
  keyword rule has a match of exactly those letters. A position has the keyword format
  exactly when some declared keyword stands over it as a whole word and no match of a
  string rule or of the comment rule lies over it. So the letters of \<open>w\<close> inside a longer
  identifier have the keyword format only where another whole-word occurrence of a
  declared keyword lies over them, as UNSTRING over STRING; in \<^verbatim>\<open>MOVEMENT\<close> no position
  has it.
\<close>

theorem keyword_whole_word_only:
  assumes w: "w \<in> set cobol_keywords"
  shows
    "(whole_word_at w s i \<longrightarrow> (i, length w) \<in> set (globalMatch (keyword_pattern w) s)) \<and>
     (whole_word_at w s i \<and> i \<le> j \<and> j < i + length w \<and>
      \<not> covered j (globalMatch (quote_pattern (CHR 0x22)) s) \<and>
      \<not> covered j (globalMatch (quote_pattern (CHR 0x27)) s) \<and>
      \<not> covered j (globalMatch comment_pattern s) \<longrightarrow>
        highlightBlock s ! j = Some keyword_format) \<and>
     ((st, l) \<in> set (globalMatch (keyword_pattern w) s) \<longrightarrow>
        l = length w \<and> whole_word_at w s st) \<and>
     (occurs_at w s i \<and>
      (word_opt (prev_at s i) \<or> word_opt (next_char (drop (i + length w) s))) \<longrightarrow>
        (\<forall>v\<in>set cobol_keywords. (i, length w) \<notin> set (globalMatch (keyword_pattern v) s))) \<and>
     (j < length s \<longrightarrow>
        (highlightBlock s ! j = Some keyword_format \<longleftrightarrow>
         keyword_word_over s j \<and>
         \<not> covered j (globalMatch (quote_pattern (CHR 0x22)) s) \<and>
         \<not> covered j (globalMatch (quote_pattern (CHR 0x27)) s) \<and>
         \<not> covered j (globalMatch comment_pattern s))) \<and>
     (keyword_word_over s j \<longleftrightarrow>
        (\<exists>v\<in>set cobol_keywords. \<exists>st. whole_word_at v s st \<and> st \<le> j \<and> j < st + length v)) \<and>
     (occurs_at w s i \<and>
      (word_opt (prev_at s i) \<or> word_opt (next_char (drop (i + length w) s))) \<and>
      i \<le> j \<and> j < i + length w \<and> highlightBlock s ! j = Some keyword_format \<longrightarrow>
        (\<exists>v\<in>set cobol_keywords. \<exists>st. whole_word_at v s st \<and> st \<le> j \<and> j < st + length v \<and>
           (st, length v) \<noteq> (i, length w)))"
proof (intro conjI)
  show "whole_word_at w s i \<longrightarrow> (i, length w) \<in> set (globalMatch (keyword_pattern w) s)"
    using keyword_found [OF w] by blast
next
  show "whole_word_at w s i \<and> i \<le> j \<and> j < i + length w \<and>
      \<not> covered j (globalMatch (quote_pattern (CHR 0x22)) s) \<and>
      \<not> covered j (globalMatch (quote_pattern (CHR 0x27)) s) \<and>
      \<not> covered j (globalMatch comment_pattern s) \<longrightarrow>
        highlightBlock s ! j = Some keyword_format"
  proof
    assume a: "whole_word_at w s i \<and> i \<le> j \<and> j < i + length w \<and>
      \<not> covered j (globalMatch (quote_pattern (CHR 0x22)) s) \<and>
      \<not> covered j (globalMatch (quote_pattern (CHR 0x27)) s) \<and>
      \<not> covered j (globalMatch comment_pattern s)"
    then have "(i, length w) \<in> set (globalMatch (keyword_pattern w) s)"
      using keyword_found [OF w] by blast
    with a have "covered j (globalMatch (keyword_pattern w) s)"
      unfolding covered_iff by blast
    with w have k: "\<exists>v\<in>set cobol_keywords. covered j (globalMatch (keyword_pattern v) s)"
      by blast
    from a have "j < length s"
      by (simp add: whole_word_at_def occurs_at_def)
    with a k show "highlightBlock s ! j = Some keyword_format"
      by (simp add: highlight_char)
  qed
next
  show "(st, l) \<in> set (globalMatch (keyword_pattern w) s) \<longrightarrow>
        l = length w \<and> whole_word_at w s st"
    using keyword_match [OF w] by blast
next
  show "occurs_at w s i \<and>
      (word_opt (prev_at s i) \<or> word_opt (next_char (drop (i + length w) s))) \<longrightarrow>
        (\<forall>v\<in>set cobol_keywords. (i, length w) \<notin> set (globalMatch (keyword_pattern v) s))"
  proof (intro impI ballI notI)
    fix v
    assume a: "occurs_at w s i \<and>
      (word_opt (prev_at s i) \<or> word_opt (next_char (drop (i + length w) s)))"
    assume "v \<in> set cobol_keywords" "(i, length w) \<in> set (globalMatch (keyword_pattern v) s)"
    from keyword_match [OF this] have "length w = length v" "whole_word_at v s i"
      by simp_all
    with a show False
      by (simp add: whole_word_at_def)
  qed
next
  show "j < length s \<longrightarrow>
        (highlightBlock s ! j = Some keyword_format \<longleftrightarrow>
         keyword_word_over s j \<and>
         \<not> covered j (globalMatch (quote_pattern (CHR 0x22)) s) \<and>
         \<not> covered j (globalMatch (quote_pattern (CHR 0x27)) s) \<and>
         \<not> covered j (globalMatch comment_pattern s))"
    using keyword_format_iff [of j s] by blast
next
  show "keyword_word_over s j \<longleftrightarrow>
        (\<exists>v\<in>set cobol_keywords. \<exists>st. whole_word_at v s st \<and> st \<le> j \<and> j < st + length v)"
    by (rule keyword_word_over_iff)
next
  show "occurs_at w s i \<and>
      (word_opt (prev_at s i) \<or> word_opt (next_char (drop (i + length w) s))) \<and>
      i \<le> j \<and> j < i + length w \<and> highlightBlock s ! j = Some keyword_format \<longrightarrow>
        (\<exists>v\<in>set cobol_keywords. \<exists>st. whole_word_at v s st \<and> st \<le> j \<and> j < st + length v \<and>
           (st, length v) \<noteq> (i, length w))"
  proof
    assume a: "occurs_at w s i \<and>
      (word_opt (prev_at s i) \<or> word_opt (next_char (drop (i + length w) s))) \<and>
      i \<le> j \<and> j < i + length w \<and> highlightBlock s ! j = Some keyword_format"
    then have "j < length s" by (simp add: occurs_at_def)
    from keyword_format_cover [OF this] a obtain v st where v: "v \<in> set cobol_keywords"
      and ww: "whole_word_at v s st" and st: "st \<le> j" "j < st + length v"
      by blast
    have "(st, length v) \<noteq> (i, length w)"
    proof
      assume "(st, length v) = (i, length w)"
      with ww have "\<not> word_opt (prev_at s i)" "\<not> word_opt (next_char (drop (i + length w) s))"
        by (simp_all add: whole_word_at_def)
      with a show False by blast
    qed
    with v ww st show "\<exists>v\<in>set cobol_keywords. \<exists>st. whole_word_at v s st \<and> st \<le> j \<and>
        j < st + length v \<and> (st, length v) \<noteq> (i, length w)"
      by blast
  qed
qed

theorem keyword_whole_word_only_witness:
  "''MOVE'' \<in> set cobol_keywords \<and> whole_word_at ''MOVE'' ''MOVE MOVEMENT TO X'' 0 \<and>
   (0, 4) \<in> set (globalMatch (keyword_pattern ''MOVE'') ''MOVE MOVEMENT TO X'') \<and>
   \<not> covered 3 (globalMatch (quote_pattern (CHR 0x22)) ''MOVE MOVEMENT TO X'') \<and>
   \<not> covered 3 (globalMatch (quote_pattern (CHR 0x27)) ''MOVE MOVEMENT TO X'') \<and>
   \<not> covered 3 (globalMatch comment_pattern ''MOVE MOVEMENT TO X'') \<and>
   highlightBlock ''MOVE MOVEMENT TO X'' ! 3 = Some keyword_format \<and>
   occurs_at ''MOVE'' ''MOVE MOVEMENT TO X'' 5 \<and>
   word_opt (next_char (drop (5 + length ''MOVE'') ''MOVE MOVEMENT TO X'')) \<and>
   (5, 4) \<notin> set (globalMatch (keyword_pattern ''MOVE'') ''MOVE MOVEMENT TO X'') \<and>
   globalMatch (keyword_pattern ''MOVE'') ''MOVE MOVEMENT TO X'' = [(0, 4)] \<and>
   \<not> keyword_word_over ''MOVE MOVEMENT TO X'' 5 \<and>
   highlightBlock ''MOVE MOVEMENT TO X'' ! 5 \<noteq> Some keyword_format \<and>
   \<not> keyword_word_over ''MOVE MOVEMENT TO X'' 8 \<and>
   highlightBlock ''MOVE MOVEMENT TO X'' ! 8 \<noteq> Some keyword_format \<and>
   ''STRING'' \<in> set cobol_keywords \<and> occurs_at ''STRING'' ''UNSTRING X'' 2 \<and>
   word_opt (prev_at ''UNSTRING X'' 2) \<and>
   highlightBlock ''UNSTRING X'' ! 2 = Some keyword_format \<and>
   (\<exists>v st. v \<in> set cobol_keywords \<and> whole_word_at v ''UNSTRING X'' st \<and> st \<le> 2 \<and>
      2 < st + length v \<and> (st, length v) \<noteq> (2, length ''STRING''))"
proof -
  let ?s = "''MOVE MOVEMENT TO X''"
  have h: "''MOVE'' \<in> set cobol_keywords" "whole_word_at ''MOVE'' ?s 0"
    "\<not> covered 3 (globalMatch (quote_pattern (CHR 0x22)) ?s)"
    "\<not> covered 3 (globalMatch (quote_pattern (CHR 0x27)) ?s)"
    "\<not> covered 3 (globalMatch comment_pattern ?s)"
    "occurs_at ''MOVE'' ?s 5"
    "word_opt (next_char (drop (5 + length ''MOVE'') ?s))"
    "globalMatch (keyword_pattern ''MOVE'') ?s = [(0, 4)]"
    "\<not> keyword_word_over ?s 5" "\<not> keyword_word_over ?s 8"
    by code_simp+
  have n: "(0::nat) \<le> 3 \<and> (3::nat) < 0 + length ''MOVE''" "length ''MOVE'' = 4"
    "5 < length ?s" "8 < length ?s"
    by simp_all
  note t = keyword_whole_word_only [OF h(1), of ?s]
  from t [of 0 3] h(2) have a: "(0, length ''MOVE'') \<in> set (globalMatch (keyword_pattern ''MOVE'') ?s)"
    by blast
  from t [of 0 3] h(2,3,4,5) n(1) have b: "highlightBlock ?s ! 3 = Some keyword_format"
    by blast
  from t [of 5 3] h(6,7) h(1)
  have c: "(5, length ''MOVE'') \<notin> set (globalMatch (keyword_pattern ''MOVE'') ?s)"
    by blast
  from t [of 5 5] n(3) h(9) have d: "highlightBlock ?s ! 5 \<noteq> Some keyword_format"
    by blast
  from t [of 5 8] n(4) h(10) have e: "highlightBlock ?s ! 8 \<noteq> Some keyword_format"
    by blast
  let ?u = "''UNSTRING X''"
  have g: "''STRING'' \<in> set cobol_keywords" "occurs_at ''STRING'' ?u 2"
    "word_opt (prev_at ?u 2)" "highlightBlock ?u ! 2 = Some keyword_format"
    by code_simp+
  have m: "(2::nat) \<le> 2" "(2::nat) < 2 + length ''STRING''"
    by simp_all
  have p: "occurs_at ''STRING'' ?u 2 \<and>
      (word_opt (prev_at ?u 2) \<or> word_opt (next_char (drop (2 + length ''STRING'') ?u))) \<and>
      (2::nat) \<le> 2 \<and> (2::nat) < 2 + length ''STRING'' \<and> highlightBlock ?u ! 2 = Some keyword_format"
    using g(2,3,4) m by (intro conjI disjI1)
  note u = keyword_whole_word_only [OF g(1), of ?u 2 2]
  note u7 = u [THEN conjunct2, THEN conjunct2, THEN conjunct2, THEN conjunct2, THEN conjunct2,
      THEN conjunct2, THEN mp, OF p]
  from u7 have f: "\<exists>v st. v \<in> set cobol_keywords \<and> whole_word_at v ?u st \<and> st \<le> 2 \<and>
      2 < st + length v \<and> (st, length v) \<noteq> (2, length ''STRING'')"
    unfolding Bex_def by blast
  note a4 = a [unfolded n(2)] and c4 = c [unfolded n(2)]
  from a4 c4 b d e h g f show ?thesis by blast
qed

section \<open>Properties of the editor window\<close>

subsection \<open>Compilation\<close>

lemma compile_report_no_run: "filter is_run (compile_report r) = []"
  by (cases r) auto

lemma compile_env_run_irrelevant [simp]:
  "compile_env (w\<lparr>subprocess_run := f\<rparr>) g = compile_env w g"
  by (simp add: compile_env_def)

lemma compile_command_run_irrelevant [simp]:
  "compile_command (w\<lparr>subprocess_run := f\<rparr>) g exe src = compile_command w g exe src"
  by (simp add: compile_command_def)

lemma linux_command:
  "compile_command linux_world ''/usr/local'' ''/out/prog'' ''/src/prog.cbl'' =
     [''/usr/local/bin/cobc'', ''-x'', ''-o'', ''/out/prog'', ''/src/prog.cbl'']"
  by (simp add: compile_command_def linux_world_def cobc_executable_def startswith_def)

lemma compile_env_COBPATH:
  "compile_env w g ''COBPATH'' =
     Some (path_join w g [''lib'', ''gnucobol''] @ pathsep w @
           path_join w g [''lib'', ''cobc''] @ pathsep w @ env_get (environ w) ''COBPATH'')"
  by (simp add: compile_env_def env_get_def Let_def)

lemma compile_env_PATH:
  "compile_env w g ''PATH'' =
     Some (path_join w g [''bin''] @ pathsep w @ env_get (environ w) ''PATH'')"
  by (simp add: compile_env_def env_get_def Let_def)

lemma compile_runs:
  assumes "current_file s = Some src" and "src \<noteq> []"
    and "getSaveFileName w ''Compile to Executable'' = exe" and "exe \<noteq> []"
    and "gnubase (environ w) (platform w) = Some g"
  shows "filter is_run (snd (handle_compile_cobol w s)) =
           [SubprocessRun (compile_command w g exe src) (compile_env w g)]"
  using assms by (simp add: handle_compile_cobol_def Let_def compile_report_no_run)

text \<open>
  Claim C5. When \<open>handle_compile_cobol\<close> gets as far as \<open>subprocess.run\<close>, the outcome is
  reported as follows: exit status zero shows the success box; a non-zero exit status shows
  the error box with the captured standard error; the executable not being found shows the
  box ``GnuCOBOL Not Found''; any other exception shows the error box with the text of the
  exception.
\<close>

theorem compile_result_mapping:
  assumes "current_file s = Some src" and "src \<noteq> []"
    and "getSaveFileName w ''Compile to Executable'' = exe" and "exe \<noteq> []"
    and "gnubase (environ w) (platform w) = Some g"
    and "cmd = compile_command w g exe src" and "env = compile_env w g"
  shows
    "(subprocess_run w cmd env = Completed 0 out err \<longrightarrow>
        handle_compile_cobol w s =
          (s, [SubprocessRun cmd env, ShowMessage ''Compilation successful!'',
               MessageBox Information ''Success'' ''Compilation successful!''])) \<and>
     (subprocess_run w cmd env = Completed rc out err \<and> rc \<noteq> 0 \<longrightarrow>
        handle_compile_cobol w s =
          (s, [SubprocessRun cmd env, ShowMessage ''Compilation failed'',
               MessageBox Critical ''Error'' (''Compilation failed:'' @ [CHR 0x0A] @ err)])) \<and>
     (subprocess_run w cmd env = FileNotFoundError \<longrightarrow>
        handle_compile_cobol w s =
          (s, [SubprocessRun cmd env,
               MessageBox Critical ''GnuCOBOL Not Found'' cobc_not_found_text])) \<and>
     (subprocess_run w cmd env = OtherException e \<longrightarrow>
        handle_compile_cobol w s =
          (s, [SubprocessRun cmd env, ShowMessage ''Error during compilation'',
               MessageBox Critical ''Error'' (''Could not compile file:'' @ [CHR 0x0A] @ e)]))"
  using assms by (simp add: handle_compile_cobol_def Let_def)

theorem compile_result_mapping_witness:
  "handle_compile_cobol (linux_world\<lparr>subprocess_run := \<lambda>cmd env. Completed 0 ''ok'' []\<rparr>) saved_session =
     (saved_session,
      [SubprocessRun [''/usr/local/bin/cobc'', ''-x'', ''-o'', ''/out/prog'', ''/src/prog.cbl'']
         (compile_env linux_world ''/usr/local''),
       ShowMessage ''Compilation successful!'',
       MessageBox Information ''Success'' ''Compilation successful!'']) \<and>
   handle_compile_cobol
       (linux_world\<lparr>subprocess_run := \<lambda>cmd env. Completed 1 [] ''E: syntax error''\<rparr>) saved_session =
     (saved_session,
      [SubprocessRun [''/usr/local/bin/cobc'', ''-x'', ''-o'', ''/out/prog'', ''/src/prog.cbl'']
         (compile_env linux_world ''/usr/local''),
       ShowMessage ''Compilation failed'',
       MessageBox Critical ''Error'' (''Compilation failed:'' @ [CHR 0x0A] @ ''E: syntax error'')]) \<and>
   handle_compile_cobol (linux_world\<lparr>subprocess_run := \<lambda>cmd env. FileNotFoundError\<rparr>) saved_session =
     (saved_session,
      [SubprocessRun [''/usr/local/bin/cobc'', ''-x'', ''-o'', ''/out/prog'', ''/src/prog.cbl'']
         (compile_env linux_world ''/usr/local''),
       MessageBox Critical ''GnuCOBOL Not Found'' cobc_not_found_text]) \<and>
   handle_compile_cobol
       (linux_world\<lparr>subprocess_run := \<lambda>cmd env. OtherException ''Permission denied''\<rparr>) saved_session =
     (saved_session,
      [SubprocessRun [''/usr/local/bin/cobc'', ''-x'', ''-o'', ''/out/prog'', ''/src/prog.cbl'']
         (compile_env linux_world ''/usr/local''),
       ShowMessage ''Error during compilation'',
       MessageBox Critical ''Error'' (''Could not compile file:'' @ [CHR 0x0A] @ ''Permission denied'')])"
proof -
  let ?cmd = "[''/usr/local/bin/cobc'', ''-x'', ''-o'', ''/out/prog'', ''/src/prog.cbl'']"
  let ?env = "compile_env linux_world ''/usr/local''"
  have pre: "current_file saved_session = Some ''/src/prog.cbl''" "''/src/prog.cbl'' \<noteq> []"
    "''/out/prog'' \<noteq> []"
    by (simp_all add: saved_session_def)
  have w: "getSaveFileName (linux_world\<lparr>subprocess_run := f\<rparr>) ''Compile to Executable'' = ''/out/prog''"
    "gnubase (environ (linux_world\<lparr>subprocess_run := f\<rparr>)) (platform (linux_world\<lparr>subprocess_run := f\<rparr>)) =
       Some ''/usr/local''"
    "?cmd = compile_command (linux_world\<lparr>subprocess_run := f\<rparr>) ''/usr/local'' ''/out/prog'' ''/src/prog.cbl''"
    "?env = compile_env (linux_world\<lparr>subprocess_run := f\<rparr>) ''/usr/local''"
    for f
    by (simp_all add: linux_command) (simp_all add: linux_world_def gnubase_def startswith_def)
  have m: "(f ?cmd ?env = Completed 0 out err \<longrightarrow>
        handle_compile_cobol (linux_world\<lparr>subprocess_run := f\<rparr>) saved_session =
          (saved_session, [SubprocessRun ?cmd ?env, ShowMessage ''Compilation successful!'',
               MessageBox Information ''Success'' ''Compilation successful!''])) \<and>
     (f ?cmd ?env = Completed rc out err \<and> rc \<noteq> 0 \<longrightarrow>
        handle_compile_cobol (linux_world\<lparr>subprocess_run := f\<rparr>) saved_session =
          (saved_session, [SubprocessRun ?cmd ?env, ShowMessage ''Compilation failed'',
               MessageBox Critical ''Error'' (''Compilation failed:'' @ [CHR 0x0A] @ err)])) \<and>
     (f ?cmd ?env = FileNotFoundError \<longrightarrow>
        handle_compile_cobol (linux_world\<lparr>subprocess_run := f\<rparr>) saved_session =
          (saved_session, [SubprocessRun ?cmd ?env,
               MessageBox Critical ''GnuCOBOL Not Found'' cobc_not_found_text])) \<and>
     (f ?cmd ?env = OtherException e \<longrightarrow>
        handle_compile_cobol (linux_world\<lparr>subprocess_run := f\<rparr>) saved_session =
          (saved_session, [SubprocessRun ?cmd ?env, ShowMessage ''Error during compilation'',
               MessageBox Critical ''Error'' (''Could not compile file:'' @ [CHR 0x0A] @ e)]))"
    for f out err rc e
    using compile_result_mapping [OF pre(1,2) w(1) pre(3) w(2) w(3) w(4), of f out err rc e]
    by simp
  show ?thesis
    using m [of "\<lambda>cmd env. Completed 0 ''ok'' []" "''ok''" "[]"]
      m [of "\<lambda>cmd env. Completed 1 [] ''E: syntax error''" "[]" "''E: syntax error''" 1]
      m [of "\<lambda>cmd env. FileNotFoundError"]
      m [of "\<lambda>cmd env. OtherException ''Permission denied''" _ _ _ "''Permission denied''"]
    by simp
qed

text \<open>
  Claim C6. With no current file, \<open>handle_compile_cobol\<close> shows the warning to save first
  and returns: the session is unchanged and no process is started, whatever the machine.
\<close>

theorem compile_without_source_file:
  assumes "current_file s = None"
  shows "handle_compile_cobol w s = (s, [save_before_compiling]) \<and>
         filter is_run (snd (handle_compile_cobol w s)) = []"
  using assms by (simp add: handle_compile_cobol_def save_before_compiling_def)

theorem compile_without_source_file_witness:
  "handle_compile_cobol linux_world unsaved_session =
     (unsaved_session, [MessageBox Warning ''Warning'' ''Please save the file before compiling.'']) \<and>
   filter is_run (snd (handle_compile_cobol linux_world unsaved_session)) = []"
proof -
  have "current_file unsaved_session = None"
    by (simp add: unsaved_session_def)
  from compile_without_source_file [OF this, of linux_world] show ?thesis
    by (simp add: save_before_compiling_def)
qed

text \<open>
  Claim C7, as the claim states it, fails where GNUBASE is set to the empty string: the
  override is present, and the root is the default of the platform all the same.
\<close>

theorem toolchain_override_counterexample:
  "environ (linux_world\<lparr>environ := map_of [(''GNUBASE'', [])]\<rparr>) ''GNUBASE'' = Some [] \<and>
   gnubase (environ (linux_world\<lparr>environ := map_of [(''GNUBASE'', [])]\<rparr>))
     (platform (linux_world\<lparr>environ := map_of [(''GNUBASE'', [])]\<rparr>)) = Some ''/usr/local'' \<and>
   map run_command
     (filter is_run
        (snd (handle_compile_cobol (linux_world\<lparr>environ := map_of [(''GNUBASE'', [])]\<rparr>)
                saved_session))) =
     [[''/usr/local/bin/cobc'', ''-x'', ''-o'', ''/out/prog'', ''/src/prog.cbl'']]"
  by (simp add: handle_compile_cobol_def linux_world_def saved_session_def gnubase_def
      startswith_def compile_command_def cobc_executable_def Let_def)

text \<open>
  Claim C7, amended. The root is the value of GNUBASE when it is set and not empty; else
  (unset or empty) the default of the platform, \<open>C:\GnuCOBOL\<close> on Windows and
  \<open>/usr/local\<close> on macOS and Linux; on any other platform the handler shows the
  configuration error and starts nothing. With a root \<open>g\<close>, exactly one process is started,
  with the arguments \<open>[g/bin/cobc, -x, -o, exe_path, current_file]\<close> (\<open>cobc.exe\<close> on Windows)
  and an environment where COBPATH is \<open>g/lib/gnucobol\<close>, \<open>g/lib/cobc\<close> and the old COBPATH,
  and PATH is \<open>g/bin\<close> and the old PATH, joined by the path separator.
\<close>

theorem toolchain_resolution_and_invocation:
  assumes "current_file s = Some src" and "src \<noteq> []"
    and "getSaveFileName w ''Compile to Executable'' = exe" and "exe \<noteq> []"
  shows
    "(\<forall>g. environ w ''GNUBASE'' = Some g \<and> g \<noteq> [] \<longrightarrow>
          gnubase (environ w) (platform w) = Some g) \<and>
     (environ w ''GNUBASE'' = None \<or> environ w ''GNUBASE'' = Some [] \<longrightarrow>
        gnubase (environ w) (platform w) =
          (if startswith (platform w) ''win'' then Some (''C:'' @ [CHR 0x5C] @ ''GnuCOBOL'')
           else if startswith (platform w) ''darwin'' \<or> startswith (platform w) ''linux''
                then Some ''/usr/local''
           else None)) \<and>
     (gnubase (environ w) (platform w) = None \<longrightarrow>
        handle_compile_cobol w s =
          (s, [MessageBox Critical ''Configuration Error''
                 ''Unsupported operating system or GNUBASE not set.''])) \<and>
     (\<forall>g. gnubase (environ w) (platform w) = Some g \<longrightarrow>
        (\<exists>env. filter is_run (snd (handle_compile_cobol w s)) =
                 [SubprocessRun
                    [path_join w g [''bin'', cobc_executable (platform w)], ''-x'', ''-o'', exe, src]
                    env] \<and>
               env ''COBPATH'' =
                 Some (path_join w g [''lib'', ''gnucobol''] @ pathsep w @
                       path_join w g [''lib'', ''cobc''] @ pathsep w @
                       env_get (environ w) ''COBPATH'') \<and>
               env ''PATH'' =
                 Some (path_join w g [''bin''] @ pathsep w @ env_get (environ w) ''PATH'')))"
proof (intro conjI allI impI)
  fix g assume "environ w ''GNUBASE'' = Some g \<and> g \<noteq> []"
  then show "gnubase (environ w) (platform w) = Some g"
    by (simp add: gnubase_def)
next
  assume "environ w ''GNUBASE'' = None \<or> environ w ''GNUBASE'' = Some []"
  then show "gnubase (environ w) (platform w) =
          (if startswith (platform w) ''win'' then Some (''C:'' @ [CHR 0x5C] @ ''GnuCOBOL'')
           else if startswith (platform w) ''darwin'' \<or> startswith (platform w) ''linux''
                then Some ''/usr/local''
           else None)"
    by (auto simp add: gnubase_def)
next
  assume "gnubase (environ w) (platform w) = None"
  with assms show "handle_compile_cobol w s =
          (s, [MessageBox Critical ''Configuration Error''
                 ''Unsupported operating system or GNUBASE not set.''])"
    by (simp add: handle_compile_cobol_def)
next
  fix g assume g: "gnubase (environ w) (platform w) = Some g"
  show "\<exists>env. filter is_run (snd (handle_compile_cobol w s)) =
                 [SubprocessRun
                    [path_join w g [''bin'', cobc_executable (platform w)], ''-x'', ''-o'', exe, src]
                    env] \<and>
               env ''COBPATH'' =
                 Some (path_join w g [''lib'', ''gnucobol''] @ pathsep w @
                       path_join w g [''lib'', ''cobc''] @ pathsep w @
                       env_get (environ w) ''COBPATH'') \<and>
               env ''PATH'' =
                 Some (path_join w g [''bin''] @ pathsep w @ env_get (environ w) ''PATH'')"
    using compile_runs [OF assms g] compile_env_COBPATH [of w g] compile_env_PATH [of w g]
    by (simp add: compile_command_def)
qed

theorem toolchain_resolution_and_invocation_witness:
  "gnubase (environ (linux_world\<lparr>environ := map_of [(''GNUBASE'', ''/opt/gnucobol''), (''COBPATH'', ''/cob'')]\<rparr>))
      ''linux'' = Some ''/opt/gnucobol'' \<and>
   gnubase (environ linux_world) ''linux'' = Some ''/usr/local'' \<and>
   handle_compile_cobol (linux_world\<lparr>platform := ''sunos5''\<rparr>) saved_session =
     (saved_session, [MessageBox Critical ''Configuration Error''
                        ''Unsupported operating system or GNUBASE not set.'']) \<and>
   (\<exists>env. filter is_run (snd (handle_compile_cobol
              (linux_world\<lparr>environ := map_of [(''GNUBASE'', ''/opt/gnucobol''), (''COBPATH'', ''/cob'')]\<rparr>)
              saved_session)) =
            [SubprocessRun [''/opt/gnucobol/bin/cobc'', ''-x'', ''-o'', ''/out/prog'', ''/src/prog.cbl''] env] \<and>
          env ''COBPATH'' = Some ''/opt/gnucobol/lib/gnucobol:/opt/gnucobol/lib/cobc:/cob'' \<and>
          env ''PATH'' = Some ''/opt/gnucobol/bin:'')"
proof -
  let ?w = "linux_world\<lparr>environ := map_of [(''GNUBASE'', ''/opt/gnucobol''), (''COBPATH'', ''/cob'')]\<rparr>"
  let ?u = "linux_world\<lparr>platform := ''sunos5''\<rparr>"
  have s: "current_file saved_session = Some ''/src/prog.cbl''" "''/src/prog.cbl'' \<noteq> []"
    "''/out/prog'' \<noteq> []"
    by (simp_all add: saved_session_def)
  have w: "getSaveFileName ?w ''Compile to Executable'' = ''/out/prog''"
    "getSaveFileName linux_world ''Compile to Executable'' = ''/out/prog''"
    "getSaveFileName ?u ''Compile to Executable'' = ''/out/prog''"
    by (simp_all add: linux_world_def)
  have e: "environ ?w ''GNUBASE'' = Some ''/opt/gnucobol''" "environ linux_world ''GNUBASE'' = None"
    "platform ?w = ''linux''" "platform linux_world = ''linux''"
    "gnubase (environ ?u) (platform ?u) = None"
    "path_join ?w = posix_join" "pathsep ?w = '':''"
    "env_get (environ ?w) ''COBPATH'' = ''/cob''" "env_get (environ ?w) ''PATH'' = []"
    by (simp_all add: linux_world_def gnubase_def startswith_def env_get_def)
  note T1 = toolchain_resolution_and_invocation [OF s(1,2) w(1) s(3)]
  note T2 = toolchain_resolution_and_invocation [OF s(1,2) w(2) s(3)]
  note T3 = toolchain_resolution_and_invocation [OF s(1,2) w(3) s(3)]
  from T1 e(1) have a1: "gnubase (environ ?w) (platform ?w) = Some ''/opt/gnucobol''"
    by blast
  from T2 e(2) have a2: "gnubase (environ linux_world) (platform linux_world) = Some ''/usr/local''"
    by (simp add: e(4) startswith_def)
  from T3 e(5) have a3: "handle_compile_cobol ?u saved_session =
     (saved_session, [MessageBox Critical ''Configuration Error''
                        ''Unsupported operating system or GNUBASE not set.''])"
    by blast
  from T1 a1 obtain env where
    "filter is_run (snd (handle_compile_cobol ?w saved_session)) =
       [SubprocessRun
          [path_join ?w ''/opt/gnucobol'' [''bin'', cobc_executable (platform ?w)],
           ''-x'', ''-o'', ''/out/prog'', ''/src/prog.cbl''] env]"
    "env ''COBPATH'' =
       Some (path_join ?w ''/opt/gnucobol'' [''lib'', ''gnucobol''] @ pathsep ?w @
             path_join ?w ''/opt/gnucobol'' [''lib'', ''cobc''] @ pathsep ?w @
             env_get (environ ?w) ''COBPATH'')"
    "env ''PATH'' =
       Some (path_join ?w ''/opt/gnucobol'' [''bin''] @ pathsep ?w @ env_get (environ ?w) ''PATH'')"
    by blast
  then have a4: "\<exists>env. filter is_run (snd (handle_compile_cobol ?w saved_session)) =
            [SubprocessRun [''/opt/gnucobol/bin/cobc'', ''-x'', ''-o'', ''/out/prog'', ''/src/prog.cbl''] env] \<and>
          env ''COBPATH'' = Some ''/opt/gnucobol/lib/gnucobol:/opt/gnucobol/lib/cobc:/cob'' \<and>
          env ''PATH'' = Some ''/opt/gnucobol/bin:''"
    by (simp add: linux_world_def env_get_def cobc_executable_def startswith_def)
  from a1 a2 a3 a4 show ?thesis
    by (simp add: e(3,4))
qed

subsection \<open>The modification flag\<close>

text \<open>
  Claim C8. The document is unmodified after \<open>_open_file\<close> has read the file (also through
  \<open>handle_open_file\<close>), and after \<open>_save_to_path\<close> has written it, through
  \<open>handle_save_file\<close> with or without a current file and through \<open>handle_save_file_as\<close>; a
  mutation of the content sets the flag.
\<close>

theorem dirty_flag_after_open_save_edit:
  "(read_file w p = Inr content \<longrightarrow>
      modified (fst (open_file w s p)) = False \<and>
      plain_text (fst (open_file w s p)) = content \<and>
      current_file (fst (open_file w s p)) = Some p) \<and>
   (\<not> modified s \<and> getOpenFileName w = p \<and> p \<noteq> [] \<and> read_file w p = Inr content \<longrightarrow>
      modified (fst (handle_open_file w s)) = False \<and>
      plain_text (fst (handle_open_file w s)) = content) \<and>
   (write_file w p (plain_text s) = None \<longrightarrow>
      modified (fst (save_to_path w s p)) = False \<and>
      plain_text (fst (save_to_path w s p)) = plain_text s \<and>
      current_file (fst (save_to_path w s p)) = Some p) \<and>
   (current_file s = Some p \<and> p \<noteq> [] \<and> write_file w p (plain_text s) = None \<longrightarrow>
      modified (fst (handle_save_file w s)) = False) \<and>
   (current_file s = None \<and> getSaveFileName w ''Save As'' = p \<and> p \<noteq> [] \<and>
    write_file w p (plain_text s) = None \<longrightarrow>
      modified (fst (handle_save_file w s)) = False \<and>
      current_file (fst (handle_save_file w s)) = Some p) \<and>
   (getSaveFileName w ''Save As'' = p \<and> p \<noteq> [] \<and> write_file w p (plain_text s) = None \<longrightarrow>
      modified (fst (handle_save_file_as w s)) = False \<and>
      current_file (fst (handle_save_file_as w s)) = Some p) \<and>
   modified (edit_content c s) = True \<and> plain_text (edit_content c s) = c"
  by (simp add: open_file_def save_to_path_def handle_save_file_def handle_save_file_as_def
      handle_open_file_def choose_and_open_def document_is_modified_def
      editor_setPlainText_def setModified_def edit_content_def Let_def)

theorem dirty_flag_after_open_save_edit_witness:
  "modified (fst (open_file linux_world dirty_session ''/src/other.cbl'')) = False \<and>
   plain_text (fst (open_file linux_world dirty_session ''/src/other.cbl'')) = ''STOP RUN.'' \<and>
   modified (fst (handle_open_file linux_world saved_session)) = False \<and>
   modified (fst (save_to_path linux_world dirty_session ''/src/copy.cbl'')) = False \<and>
   modified (fst (handle_save_file linux_world dirty_session)) = False \<and>
   modified (fst (handle_save_file linux_world unsaved_session)) = False \<and>
   current_file (fst (handle_save_file linux_world unsaved_session)) = Some ''/src/copy.cbl'' \<and>
   modified (fst (handle_save_file_as linux_world dirty_session)) = False \<and>
   modified (edit_content ''DISPLAY Z.'' saved_session) = True"
proof -
  have w: "read_file linux_world ''/src/other.cbl'' = Inr ''STOP RUN.''"
    "getOpenFileName linux_world = ''/src/other.cbl''"
    "getSaveFileName linux_world ''Save As'' = ''/src/copy.cbl''"
    "write_file linux_world p t = None" for p t
    by (simp_all add: linux_world_def)
  have s: "\<not> modified saved_session" "current_file dirty_session = Some ''/src/prog.cbl''"
    "current_file unsaved_session = None"
    by (simp_all add: saved_session_def dirty_session_def unsaved_session_def)
  show ?thesis
    using dirty_flag_after_open_save_edit
        [of linux_world "''/src/other.cbl''" "''STOP RUN.''" dirty_session "''DISPLAY Z.''"]
      dirty_flag_after_open_save_edit
        [of linux_world "''/src/other.cbl''" "''STOP RUN.''" saved_session "''DISPLAY Z.''"]
      dirty_flag_after_open_save_edit
        [of linux_world "''/src/copy.cbl''" "''STOP RUN.''" dirty_session "''DISPLAY Z.''"]
      dirty_flag_after_open_save_edit
        [of linux_world "''/src/prog.cbl''" "''STOP RUN.''" dirty_session "''DISPLAY Z.''"]
      dirty_flag_after_open_save_edit
        [of linux_world "''/src/copy.cbl''" "''STOP RUN.''" unsaved_session "''DISPLAY Z.''"]
      w s
    by simp
qed

subsection \<open>New file\<close>

text \<open>
  On a modified document \<open>handle_new_file\<close> asks first; after Cancel nothing has changed;
  on an unmodified document it empties the editor and forgets the path.
\<close>

lemma new_file_cancel_or_clean:
  "(modified s \<longrightarrow>
      (\<exists>evs. snd (handle_new_file w s) =
               Prompt ''Do you want to save before creating a new file?'' # evs)) \<and>
   (modified s \<and>
    warning_reply w ''Do you want to save before creating a new file?'' = Cancel \<longrightarrow>
      handle_new_file w s = (s, [Prompt ''Do you want to save before creating a new file?''])) \<and>
   (\<not> modified s \<longrightarrow>
      handle_new_file w s =
        (\<lparr>current_file = None, plain_text = [], modified = False\<rparr>,
         [SetWindowTitle ''GNU Cobol IDE - Untitled'', ShowMessage ''New file created'']))"
  by (cases "warning_reply w ''Do you want to save before creating a new file?''")
    (auto simp add: handle_new_file_def document_is_modified_def prompt_save_discard_cancel_def
      new_document_def editor_clear_def update_window_title_def Let_def split: prod.splits)

text \<open>
  After Discard the handler returns as it does after Cancel: \<open>not False\<close> is true.
\<close>

lemma new_file_discard:
  "handle_new_file (linux_world\<lparr>warning_reply := \<lambda>message. Discard\<rparr>) dirty_session =
     (dirty_session, [Prompt ''Do you want to save before creating a new file?''])"
  by (simp add: handle_new_file_def document_is_modified_def prompt_save_discard_cancel_def
      linux_world_def dirty_session_def Let_def)

text \<open>
  Claim C9. The code departs from the claim where the user answers Save and the save
  fails: \<open>_prompt_save_discard_cancel\<close> returns \<open>True\<close> whatever \<open>handle_save_file\<close> did, so
  the changes are neither saved nor discarded, and \<open>handle_new_file\<close> empties the editor
  all the same.
\<close>

theorem new_file_after_failed_save:
  "modified dirty_session \<and>
   handle_save_file
       (linux_world\<lparr>warning_reply := \<lambda>message. Save,
                     write_file := \<lambda>path content. Some ''Permission denied''\<rparr>)
       dirty_session =
     (dirty_session,
      [MessageBox Critical ''Error'' (''Could not save file:'' @ [CHR 0x0A] @ ''Permission denied'')]) \<and>
   handle_new_file
       (linux_world\<lparr>warning_reply := \<lambda>message. Save,
                     write_file := \<lambda>path content. Some ''Permission denied''\<rparr>)
       dirty_session =
     (\<lparr>current_file = None, plain_text = [], modified = False\<rparr>,
      [Prompt ''Do you want to save before creating a new file?'',
       MessageBox Critical ''Error'' (''Could not save file:'' @ [CHR 0x0A] @ ''Permission denied''),
       SetWindowTitle ''GNU Cobol IDE - Untitled'',
       ShowMessage ''New file created''])"
  by (simp add: handle_new_file_def document_is_modified_def prompt_save_discard_cancel_def
      handle_save_file_def save_to_path_def new_document_def editor_clear_def
      update_window_title_def linux_world_def dirty_session_def Let_def)

end
